theory Spec2Isabelle
  imports Main
begin

section \<open>Legacy values and their string form\<close>

text \<open>
  The engine of \<^verbatim>\<open>src/index.ts\<close> keys everything by the string form of a legacy
  identifier. A legacy identifier has the TypeScript type \<^verbatim>\<open>string | number\<close>
  (\<open>scalar\<close>); the lookups also accept \<^verbatim>\<open>null\<close> and \<^verbatim>\<open>undefined\<close>, and so do the
  functions whose parameter is typed \<^verbatim>\<open>unknown\<close>, which receive column values
  (\<open>scalar nullable\<close>). Numbers are modelled as the integers (legacy sequence keys), for
  which JavaScript's \<^verbatim>\<open>String(n)\<close> is the decimal numeral with a leading minus sign
  for negative values.
\<close>

datatype scalar = Num int | Str string

datatype 'a nullable = Null | Undefined | Val 'a

definition digit :: "nat \<Rightarrow> char" where
  "digit d = ''0123456789'' ! (d mod 10)"

function decimal :: "nat \<Rightarrow> string" where
  "decimal n = (if n < 10 then [digit n] else decimal (n div 10) @ [digit n])"
  by pat_completeness auto
termination
  by (relation "measure (\<lambda>n. n)") auto

declare decimal.simps [simp del]

text \<open>\<^verbatim>\<open>String(v)\<close> for \<^verbatim>\<open>v: string | number\<close>.\<close>

fun String_js :: "scalar \<Rightarrow> string" where
  "String_js (Str s) = s"
| "String_js (Num n) = (if n < 0 then CHR ''-'' # decimal (nat (- n)) else decimal (nat n))"

text \<open>
  \<^verbatim>\<open>String.prototype.trim\<close> removes white space from both ends. Characters are
  bytes here, so the white space is the ASCII one: tab, line feed, vertical tab, form
  feed, carriage return and space.
\<close>

definition is_ws :: "char \<Rightarrow> bool" where
  "is_ws c \<longleftrightarrow> c \<in> set [CHR 0x09, CHR 0x0A, CHR 0x0B, CHR 0x0C, CHR 0x0D, CHR '' '']"

definition trim :: "string \<Rightarrow> string" where
  "trim s = rev (dropWhile is_ws (rev (dropWhile is_ws s)))"

text \<open>
  \<^verbatim>\<open>normalizeLegacyId(v)\<close>: \<^verbatim>\<open>null\<close> for a missing value, otherwise the trimmed
  string form, and \<^verbatim>\<open>null\<close> again when that is empty.
\<close>

fun normalizeLegacyId :: "scalar nullable \<Rightarrow> string option" where
  "normalizeLegacyId Null = None"
| "normalizeLegacyId Undefined = None"
| "normalizeLegacyId (Val v) = (let s = trim (String_js v) in if s = [] then None else Some s)"

section \<open>The target store\<close>

text \<open>
  The control tables of \<^verbatim>\<open>sql/control_tables.sql\<close>, each as the list of its rows in
  insertion order. Columns that only the database fills with \<^verbatim>\<open>now()\<close>
  (\<^verbatim>\<open>started_at\<close>, \<^verbatim>\<open>finished_at\<close>, \<^verbatim>\<open>migrated_at\<close>, \<^verbatim>\<open>created_at\<close>,
  \<^verbatim>\<open>updated_at\<close>) and columns the engine never writes (\<^verbatim>\<open>source_hash\<close>, the
  \<^verbatim>\<open>rows_*\<close> counters, the serial id of \<^verbatim>\<open>migration_errors\<close>) are left out;
  \<open>transitions\<close> of a run is no column: it counts the updates that
  \<^verbatim>\<open>endRun\<close> has made to the row, which the overwritten status cannot show;
  \<^verbatim>\<open>last_updated_at\<close> of a checkpoint, a watermark and not a clock reading, is an
  optional number.
  The destination tables of the application schema are not part of the repository's
  sources; they are the component \<open>dest\<close> of an arbitrary type.
  \<open>runs_seq\<close> is the last value handed out by the \<^verbatim>\<open>bigserial\<close> sequence of
  \<^verbatim>\<open>migration_runs.id\<close>. The process itself owns the generator behind
  \<^verbatim>\<open>newId()\<close> (\<^verbatim>\<open>uuidv7\<close>): \<open>uuidv7 s n\<close> is the identifier the \<open>n\<close>-th call
  returns and \<open>minted\<close> counts the calls made so far.
\<close>

datatype mode = Full | Incremental

datatype final = Success | Failed

datatype status = Running | Terminal final

datatype stage = Extract | Transform | Load | Validate

type_synonym row = "(string \<times> scalar nullable) list"

record map_row =
  entity :: string
  legacy_id :: string
  new_id :: string

record run_row =
  run_id :: nat
  job_name :: string
  run_mode :: mode
  status :: status
  error_message :: "string option"
  transitions :: nat

record checkpoint_row =
  cp_job_name :: string
  last_legacy_id :: "string option"
  last_updated_at :: "nat option"

record error_row =
  err_run_id :: nat
  err_job_name :: string
  err_legacy_id :: string
  err_stage :: stage
  err_message :: string
  payload :: row

record 'd world =
  migration_runs :: "run_row list"
  runs_seq :: nat
  migration_checkpoints :: "checkpoint_row list"
  migration_map :: "map_row list"
  migration_errors :: "error_row list"
  dest :: 'd
  uuidv7 :: "nat \<Rightarrow> string"
  minted :: nat

text \<open>
  A statement either completes or throws; the store keeps whatever was written before
  the throw, since no statement of the engine runs inside a transaction.
  \<^verbatim>\<open>index.ts\<close> has no \<^verbatim>\<open>throw\<close> statement of its own: every exception comes
  from one of the two database drivers, an \<^verbatim>\<open>Error\<close> whose \<^verbatim>\<open>message\<close> is a
  string, so \<open>Throw\<close> carries that string.
\<close>

datatype 'a result = Ok 'a | Throw string

section \<open>IdentityMap\<close>

definition newId :: "'d world \<Rightarrow> string \<times> 'd world" where
  "newId s = (uuidv7 s (minted s), s\<lparr>minted := Suc (minted s)\<rparr>)"

definition duplicate_new_id :: string where
  "duplicate_new_id =
     ''duplicate key value violates unique constraint '' @ [CHR 0x22] @
       ''migration_map_entity_new_id_key'' @ [CHR 0x22]"

text \<open>
  \<^verbatim>\<open>mapPut\<close> is one statement:
  \<^verbatim>\<open>insert into migration_map ... on conflict (entity, legacy_id) do update set new_id=excluded.new_id\<close>.
  The conflict clause arbitrates on the primary key only. The table also declares
  \<^verbatim>\<open>unique (entity, new_id)\<close>, so the statement is rejected, and nothing is written,
  when another legacy key of the same entity already holds the new id. The message of
  the rejection names the constraint (here without its quotation marks).
\<close>

definition claimed_elsewhere :: "map_row list \<Rightarrow> string \<Rightarrow> string \<Rightarrow> string \<Rightarrow> bool" where
  "claimed_elsewhere rows e k n \<longleftrightarrow>
     list_ex (\<lambda>r. entity r = e \<and> new_id r = n \<and> legacy_id r \<noteq> k) rows"

definition has_key :: "map_row list \<Rightarrow> string \<Rightarrow> string \<Rightarrow> bool" where
  "has_key rows e k \<longleftrightarrow> list_ex (\<lambda>r. entity r = e \<and> legacy_id r = k) rows"

text \<open>What the accepted statement leaves in the table: the conflicting row updated, or a new row.\<close>

definition put_rows :: "map_row list \<Rightarrow> string \<Rightarrow> string \<Rightarrow> string \<Rightarrow> map_row list" where
  "put_rows rows e k n =
     (if has_key rows e k then
        map (\<lambda>r. if entity r = e \<and> legacy_id r = k then r\<lparr>new_id := n\<rparr> else r) rows
      else rows @ [\<lparr>entity = e, legacy_id = k, new_id = n\<rparr>])"

definition mapPut :: "'d world \<Rightarrow> string \<Rightarrow> scalar \<Rightarrow> string \<Rightarrow> unit result \<times> 'd world" where
  "mapPut s e legacyId newId' =
     (let k = String_js legacyId; rows = migration_map s in
      if claimed_elsewhere rows e k newId' then (Throw duplicate_new_id, s)
      else (Ok (), s\<lparr>migration_map := put_rows rows e k newId'\<rparr>))"

text \<open>
  \<^verbatim>\<open>mapGet\<close>: \<^verbatim>\<open>null\<close> at once for a missing legacy id; otherwise the
  \<^verbatim>\<open>new_id\<close> of the first row the select returns, or \<^verbatim>\<open>null\<close>.
\<close>

fun mapGet :: "'d world \<Rightarrow> string \<Rightarrow> scalar nullable \<Rightarrow> string option" where
  "mapGet s e Null = None"
| "mapGet s e Undefined = None"
| "mapGet s e (Val legacyId) =
     (case filter (\<lambda>r. entity r = e \<and> legacy_id r = String_js legacyId) (migration_map s) of
        [] \<Rightarrow> None
      | r # _ \<Rightarrow> Some (new_id r))"

text \<open>\<^verbatim>\<open>resolveId\<close>: \<^verbatim>\<open>existing ?? newId()\<close>; the generator runs only on a miss.\<close>

definition resolveId :: "'d world \<Rightarrow> string \<Rightarrow> scalar nullable \<Rightarrow> string \<times> 'd world" where
  "resolveId s e legacyId =
     (case mapGet s e legacyId of Some existing \<Rightarrow> (existing, s) | None \<Rightarrow> newId s)"

definition mapPutBoth ::
  "'d world \<Rightarrow> string \<Rightarrow> scalar nullable \<Rightarrow> scalar nullable \<Rightarrow> string \<Rightarrow> unit result \<times> 'd world" where
  "mapPutBoth s e legacyInt legacyUuid newId' =
     (let a = normalizeLegacyId legacyInt; b = normalizeLegacyId legacyUuid in
      case (case a of Some a' \<Rightarrow> mapPut s e (Str a') newId' | None \<Rightarrow> (Ok (), s)) of
        (Throw m, s1) \<Rightarrow> (Throw m, s1)
      | (Ok u, s1) \<Rightarrow>
          (case b of
             Some b' \<Rightarrow> if b \<noteq> a then mapPut s1 e (Str b') newId' else (Ok (), s1)
           | None \<Rightarrow> (Ok (), s1)))"

text \<open>
  \<^verbatim>\<open>mapGetAny\<close>: the candidates in order; a candidate that normalises to
  \<^verbatim>\<open>null\<close> is skipped, and so is a hit whose id is falsy (the empty string).
\<close>

fun mapGetAny :: "'d world \<Rightarrow> string \<Rightarrow> scalar nullable list \<Rightarrow> string option" where
  "mapGetAny s e [] = None"
| "mapGetAny s e (c # cs) =
     (case normalizeLegacyId c of
        None \<Rightarrow> mapGetAny s e cs
      | Some v \<Rightarrow>
          (case mapGet s e (Val (Str v)) of
             Some i \<Rightarrow> if i \<noteq> [] then Some i else mapGetAny s e cs
           | None \<Rightarrow> mapGetAny s e cs))"

text \<open>The two uniqueness constraints of \<^verbatim>\<open>migration_map\<close>.\<close>

definition map_ok :: "map_row list \<Rightarrow> bool" where
  "map_ok rows \<longleftrightarrow>
     distinct (map (\<lambda>r. (entity r, legacy_id r)) rows) \<and>
     distinct (map (\<lambda>r. (entity r, new_id r)) rows)"

definition empty_world :: "'d \<Rightarrow> 'd world" where
  "empty_world d =
     \<lparr>migration_runs = [], runs_seq = 0, migration_checkpoints = [], migration_map = [],
      migration_errors = [], dest = d, uuidv7 = (\<lambda>n. ''uuid-'' @ decimal n), minted = 0\<rparr>"

section \<open>RunLedger and ErrorSink\<close>

text \<open>
  \<^verbatim>\<open>startRun\<close> inserts a row and returns the id the sequence gives it; the status is
  the column default \<^verbatim>\<open>'running'\<close>. Its mode is the global \<^verbatim>\<open>mode\<close>, the value
  \<^verbatim>\<open>main\<close> also puts into the context, so it is passed here. \<^verbatim>\<open>endRun\<close> updates
  the rows with that id, and each update it makes to a row is counted in
  \<open>transitions\<close>.
  The two statements on \<^verbatim>\<open>migration_runs\<close> are taken to complete: their parameters
  are a job key of the registry, the mode, an id of the sequence, a status and the
  message of a caught exception, which is an error text of one of the two databases;
  none of them is data of a source row, and connection failures are outside the model.
\<close>

definition startRun :: "'d world \<Rightarrow> string \<Rightarrow> mode \<Rightarrow> nat \<times> 'd world" where
  "startRun s jobName m =
     (let rid = Suc (runs_seq s) in
      (rid, s\<lparr>runs_seq := rid,
              migration_runs := migration_runs s @
                [\<lparr>run_id = rid, job_name = jobName, run_mode = m, status = Running,
                  error_message = None, transitions = 0\<rparr>]\<rparr>))"

definition endRun :: "'d world \<Rightarrow> nat \<Rightarrow> final \<Rightarrow> string option \<Rightarrow> 'd world" where
  "endRun s runId st err =
     s\<lparr>migration_runs :=
         map (\<lambda>r. if run_id r = runId
                  then r\<lparr>status := Terminal st, error_message := err,
                         transitions := Suc (transitions r)\<rparr>
                  else r)
           (migration_runs s)\<rparr>"

definition runs_wf :: "'d world \<Rightarrow> bool" where
  "runs_wf s \<longleftrightarrow> list_all (\<lambda>r. run_id r \<le> runs_seq s) (migration_runs s)"

text \<open>
  PostgreSQL cannot store the character NUL in \<^verbatim>\<open>text\<close> (the comment of
  \<^verbatim>\<open>stripNullBytes\<close> in \<^verbatim>\<open>index.ts\<close> says so), and \<^verbatim>\<open>jsonb\<close> refuses its
  escape: a statement is refused, and writes nothing, when a text parameter holds NUL or
  when the JSON text of a \<^verbatim>\<open>jsonb\<close> parameter does. The insert into
  \<^verbatim>\<open>migration_errors\<close> takes the legacy id and the whole source row from the data,
  so it can throw; the parameters are checked in their order.
\<close>

definition has_nul :: "string \<Rightarrow> bool" where
  "has_nul t \<longleftrightarrow> CHR 0x00 \<in> set t"

definition value_has_nul :: "scalar nullable \<Rightarrow> bool" where
  "value_has_nul v = (case v of Val (Str t) \<Rightarrow> has_nul t | Val (Num n) \<Rightarrow> False
                      | Null \<Rightarrow> False | Undefined \<Rightarrow> False)"

definition row_has_nul :: "row \<Rightarrow> bool" where
  "row_has_nul r \<longleftrightarrow> list_ex (\<lambda>cv. has_nul (fst cv) \<or> value_has_nul (snd cv)) r"

definition invalid_byte :: string where
  "invalid_byte = ''invalid byte sequence for encoding UTF8: 0x00''"

definition bad_escape :: string where
  "bad_escape = ''unsupported Unicode escape sequence''"

definition insertError :: "'d world \<Rightarrow> error_row \<Rightarrow> unit result \<times> 'd world" where
  "insertError s er =
     (if has_nul (err_legacy_id er) \<or> has_nul (err_message er) then (Throw invalid_byte, s)
      else if row_has_nul (payload er) then (Throw bad_escape, s)
      else (Ok (), s\<lparr>migration_errors := migration_errors s @ [er]\<rparr>))"

definition error_refused :: "error_row \<Rightarrow> bool" where
  "error_refused er \<longleftrightarrow>
     has_nul (err_legacy_id er) \<or> has_nul (err_message er) \<or> row_has_nul (payload er)"

section \<open>Jobs and the orchestrator\<close>

text \<open>
  \<open>source\<close> answers an extraction query with its rows or throws; \<open>stateByUf\<close> is the
  acronym table that \<^verbatim>\<open>bootstrapStates\<close> reads from the destination before the
  first job. An upsert works on the shared target store and returns its boolean or
  throws.
\<close>

record ctx =
  source :: "string \<Rightarrow> row list result"
  mode :: mode
  tableFilter :: "string option"
  stateByUf :: "string \<Rightarrow> string option"

record 'd job =
  key :: string
  level :: int
  sourceTable :: string
  pk :: string
  extractSql :: "mode \<Rightarrow> string"
  upsert :: "row \<Rightarrow> ctx \<Rightarrow> 'd world \<Rightarrow> bool result \<times> 'd world"

definition field :: "row \<Rightarrow> string \<Rightarrow> scalar nullable" where
  "field r c = (case map_of r c of None \<Rightarrow> Undefined | Some v \<Rightarrow> v)"

text \<open>\<^verbatim>\<open>String(row[job.pk] ?? "")\<close>\<close>

definition pk_text :: "row \<Rightarrow> string \<Rightarrow> string" where
  "pk_text r c = (case field r c of Val v \<Rightarrow> String_js v | Null \<Rightarrow> [] | Undefined \<Rightarrow> [])"

record 'd loop =
  st :: "'d world"
  lidos :: nat
  inseridos :: nat

definition skipped_message :: string where
  "skipped_message = ''skipped: upsert returned false (missing FK or mapping)''"

definition error_entry :: "'d job \<Rightarrow> nat \<Rightarrow> row \<Rightarrow> stage \<Rightarrow> string \<Rightarrow> error_row" where
  "error_entry j runId r sg m =
     \<lparr>err_run_id = runId, err_job_name = key j, err_legacy_id = pk_text r (pk j),
      err_stage = sg, err_message = m, payload = r\<rparr>"

text \<open>
  The \<^verbatim>\<open>catch\<close> of the row's \<^verbatim>\<open>try\<close>: the insert at stage \<^verbatim>\<open>load\<close> with the
  message of the exception caught. Nothing guards this insert, so when it throws the
  exception leaves the row loop.
\<close>

definition runJob_row_catch ::
  "'d job \<Rightarrow> nat \<Rightarrow> 'd loop \<Rightarrow> row \<Rightarrow> 'd world \<Rightarrow> string \<Rightarrow> unit result \<times> 'd loop" where
  "runJob_row_catch j runId l r s' m =
     (case insertError s' (error_entry j runId r Load m) of
        (Ok u, s'') \<Rightarrow> (Ok (), \<lparr>st = s'', lidos = Suc (lidos l), inseridos = inseridos l\<rparr>)
      | (Throw m', s'') \<Rightarrow> (Throw m', \<lparr>st = s'', lidos = lidos l, inseridos = inseridos l\<rparr>))"

text \<open>
  The body of the row loop of \<^verbatim>\<open>runJob\<close>. The insert at stage \<^verbatim>\<open>validate\<close> is
  inside the row's \<^verbatim>\<open>try\<close>, so its exception is caught like one of the upsert. The
  progress line printed every \<^verbatim>\<open>batchSize\<close> rows is not modelled; the counters it
  reports are.
\<close>

definition runJob_row ::
  "'d job \<Rightarrow> ctx \<Rightarrow> nat \<Rightarrow> 'd loop \<Rightarrow> row \<Rightarrow> unit result \<times> 'd loop" where
  "runJob_row j c runId l r =
     (case upsert j r c (st l) of
        (Ok ok, s') \<Rightarrow>
          if ok then (Ok (), \<lparr>st = s', lidos = Suc (lidos l), inseridos = Suc (inseridos l)\<rparr>)
          else
            (case insertError s' (error_entry j runId r Validate skipped_message) of
               (Ok u, s'') \<Rightarrow>
                 (Ok (), \<lparr>st = s'', lidos = Suc (lidos l), inseridos = inseridos l\<rparr>)
             | (Throw m, s'') \<Rightarrow> runJob_row_catch j runId l r s'' m)
      | (Throw m, s') \<Rightarrow> runJob_row_catch j runId l r s' m)"

text \<open>The \<^verbatim>\<open>for\<close> loop: it ends at the first exception that leaves a row.\<close>

fun runJob_loop ::
  "'d job \<Rightarrow> ctx \<Rightarrow> nat \<Rightarrow> 'd loop \<Rightarrow> row list \<Rightarrow> unit result \<times> 'd loop" where
  "runJob_loop j c runId l [] = (Ok (), l)"
| "runJob_loop j c runId l (r # rs) =
     (case runJob_row j c runId l r of
        (Ok u, l') \<Rightarrow> runJob_loop j c runId l' rs
      | (Throw m, l') \<Rightarrow> (Throw m, l'))"

definition runJob_rows ::
  "'d job \<Rightarrow> ctx \<Rightarrow> nat \<Rightarrow> 'd world \<Rightarrow> row list \<Rightarrow> unit result \<times> 'd loop" where
  "runJob_rows j c runId s rows = runJob_loop j c runId \<lparr>st = s, lidos = 0, inseridos = 0\<rparr> rows"

definition filtered_out :: "ctx \<Rightarrow> 'd job \<Rightarrow> bool" where
  "filtered_out c j \<longleftrightarrow>
     (case tableFilter c of None \<Rightarrow> False | Some f \<Rightarrow> f \<noteq> [] \<and> f \<noteq> key j)"

text \<open>
  The \<^verbatim>\<open>try\<close> block of \<^verbatim>\<open>runJob\<close>: the extraction, the row loop and
  \<^verbatim>\<open>endRun(runId, "success")\<close>, which with that status and no message has nothing
  to be refused for. An exception of the extraction or one that leaves the row loop
  ends the block. The two \<^verbatim>\<open>console.log\<close> lines, the progress line of the loop and
  the summary after \<^verbatim>\<open>endRun\<close>, write to the standard output and are taken not to
  throw.
\<close>

definition runJob_try :: "'d job \<Rightarrow> ctx \<Rightarrow> nat \<Rightarrow> 'd world \<Rightarrow> unit result \<times> 'd world" where
  "runJob_try j c runId s1 =
     (case source c (extractSql j (mode c)) of
        Throw m \<Rightarrow> (Throw m, s1)
      | Ok rows \<Rightarrow>
          (case runJob_rows j c runId s1 rows of
             (Throw m, l) \<Rightarrow> (Throw m, st l)
           | (Ok u, l) \<Rightarrow> (Ok (), endRun (st l) runId Success None)))"

text \<open>\<^verbatim>\<open>runJob\<close>: the filter, \<^verbatim>\<open>startRun\<close>, the \<^verbatim>\<open>try\<close> block and its \<^verbatim>\<open>catch\<close>.\<close>

definition runJob :: "'d job \<Rightarrow> ctx \<Rightarrow> 'd world \<Rightarrow> 'd world" where
  "runJob j c s =
     (if filtered_out c j then s
      else
        (case startRun s (key j) (mode c) of
           (runId, s1) \<Rightarrow>
             (case runJob_try j c runId s1 of
                (Ok u, s2) \<Rightarrow> s2
              | (Throw m, s2) \<Rightarrow> endRun s2 runId Failed (Some m))))"

text \<open>
  \<^verbatim>\<open>main\<close>: the registry sorted by \<^verbatim>\<open>level\<close> (\<^verbatim>\<open>Array.prototype.sort\<close> is
  stable), then one awaited \<^verbatim>\<open>runJob\<close> after the other. The control tables exist
  in every store of the model, so \<^verbatim>\<open>ensureControlTables\<close> changes nothing, and the
  context arrives with \<open>stateByUf\<close> read.
\<close>

definition run_jobs :: "ctx \<Rightarrow> 'd world \<Rightarrow> 'd job list \<Rightarrow> 'd world" where
  "run_jobs c s js = foldl (\<lambda>s' j. runJob j c s') s js"

definition main :: "'d job list \<Rightarrow> ctx \<Rightarrow> 'd world \<Rightarrow> 'd world" where
  "main jobs c s = run_jobs c s (sort_key level jobs)"

text \<open>
  An upsert of the registry touches the identity map and its destination table only.
\<close>

definition control_frame ::
  "(row \<Rightarrow> ctx \<Rightarrow> 'd world \<Rightarrow> bool result \<times> 'd world) \<Rightarrow> bool" where
  "control_frame u \<longleftrightarrow>
     (\<forall>r c s. migration_runs (snd (u r c s)) = migration_runs s \<and>
              runs_seq (snd (u r c s)) = runs_seq s \<and>
              migration_errors (snd (u r c s)) = migration_errors s \<and>
              migration_checkpoints (snd (u r c s)) = migration_checkpoints s)"

section \<open>The company job\<close>

text \<open>
  The functions of the IdentityMap above give what their statements answer. Inside an
  upsert their legacy key is a field of a source row, and a key that holds NUL makes
  PostgreSQL refuse the statement before it runs; the upsert then throws. The
  following are the same calls with that refusal. A missing key reaches no statement.
\<close>

definition key_refused :: "scalar nullable \<Rightarrow> bool" where
  "key_refused l = (case l of Val v \<Rightarrow> has_nul (String_js v) | Null \<Rightarrow> False | Undefined \<Rightarrow> False)"

definition mapGet_call :: "'d world \<Rightarrow> string \<Rightarrow> scalar nullable \<Rightarrow> string option result" where
  "mapGet_call s e l = (if key_refused l then Throw invalid_byte else Ok (mapGet s e l))"

definition resolveId_call ::
  "'d world \<Rightarrow> string \<Rightarrow> scalar nullable \<Rightarrow> string result \<times> 'd world" where
  "resolveId_call s e l =
     (if key_refused l then (Throw invalid_byte, s)
      else (case resolveId s e l of (i, s') \<Rightarrow> (Ok i, s')))"

definition mapPut_call :: "'d world \<Rightarrow> string \<Rightarrow> scalar \<Rightarrow> string \<Rightarrow> unit result \<times> 'd world" where
  "mapPut_call s e l n =
     (if has_nul (String_js l) then (Throw invalid_byte, s) else mapPut s e l n)"

definition mapPutBoth_call ::
  "'d world \<Rightarrow> string \<Rightarrow> scalar nullable \<Rightarrow> scalar nullable \<Rightarrow> string \<Rightarrow> unit result \<times> 'd world" where
  "mapPutBoth_call s e legacyInt legacyUuid newId' =
     (let a = normalizeLegacyId legacyInt; b = normalizeLegacyId legacyUuid in
      case (case a of Some a' \<Rightarrow> mapPut_call s e (Str a') newId' | None \<Rightarrow> (Ok (), s)) of
        (Throw m, s1) \<Rightarrow> (Throw m, s1)
      | (Ok u, s1) \<Rightarrow>
          (case b of
             Some b' \<Rightarrow> if b \<noteq> a then mapPut_call s1 e (Str b') newId' else (Ok (), s1)
           | None \<Rightarrow> (Ok (), s1)))"

text \<open>
  The destination schema is not among the sources, so the statement on a destination
  table is a parameter: \<open>exec t ids r d\<close> is what the store answers to the upsert on
  table \<open>t\<close> built from the resolved ids and the source row \<open>r\<close>.
\<close>

type_synonym 'd exec = "string \<Rightarrow> string list \<Rightarrow> row \<Rightarrow> 'd \<Rightarrow> 'd result"

text \<open>
  \<^verbatim>\<open>toUpperCase\<close> on bytes: the ASCII letters are raised, every other byte is kept
  (the acronyms of the states are ASCII).
\<close>

definition upper_char :: "char \<Rightarrow> char" where
  "upper_char c =
     (let n = (of_char c :: nat) in if 97 \<le> n \<and> n \<le> 122 then char_of (n - 32) else c)"

definition toUpperCase :: "string \<Rightarrow> string" where
  "toUpperCase s = map upper_char s"

text \<open>\<^verbatim>\<open>String(v || "")\<close>: the falsy values are the missing ones, \<^verbatim>\<open>0\<close> and \<^verbatim>\<open>""\<close>.\<close>

definition text_or_empty :: "scalar nullable \<Rightarrow> string" where
  "text_or_empty v =
     (case v of
        Val (Num n) \<Rightarrow> if n = 0 then [] else String_js (Num n)
      | Val (Str t) \<Rightarrow> t
      | Null \<Rightarrow> []
      | Undefined \<Rightarrow> [])"

text \<open>
  \<^verbatim>\<open>jobs[company].upsert\<close>: resolve the id on \<^verbatim>\<open>co_seq_empresa\<close>, look up the
  user and the state, return \<^verbatim>\<open>false\<close> when either is missing, otherwise write the
  destination row and map both legacy keys (\<^verbatim>\<open>co_seq_empresa\<close> and \<^verbatim>\<open>id\<close>).
\<close>

definition company_upsert :: "'d exec \<Rightarrow> row \<Rightarrow> ctx \<Rightarrow> 'd world \<Rightarrow> bool result \<times> 'd world" where
  "company_upsert exec r c s =
     (case resolveId_call s ''company'' (field r ''co_seq_empresa'') of
        (Throw m, s1) \<Rightarrow> (Throw m, s1)
      | (Ok i, s1) \<Rightarrow>
          (case mapGet_call s1 ''user'' (field r ''user_id'') of
             Throw m \<Rightarrow> (Throw m, s1)
           | Ok userId' \<Rightarrow>
               (case (userId', stateByUf c (toUpperCase (text_or_empty (field r ''ds_uf'')))) of
                  (Some userId, Some stateId) \<Rightarrow>
                    if userId = [] \<or> stateId = [] then (Ok False, s1)
                    else
                      (case exec ''company'' [i, userId, stateId] r (dest s1) of
                         Throw m \<Rightarrow> (Throw m, s1)
                       | Ok d' \<Rightarrow>
                           (case mapPutBoth_call (s1\<lparr>dest := d'\<rparr>) ''company''
                                   (field r ''co_seq_empresa'') (field r ''id'') i of
                              (Throw m, s2) \<Rightarrow> (Throw m, s2)
                            | (Ok u, s2) \<Rightarrow> (Ok True, s2)))
                | _ \<Rightarrow> (Ok False, s1))))"

definition company :: "'d exec \<Rightarrow> 'd job" where
  "company exec =
     \<lparr>key = ''company'', level = 2, sourceTable = ''tb_empresa'', pk = ''co_seq_empresa'',
      extractSql = (\<lambda>m. ''select * from tb_empresa''), upsert = company_upsert exec\<rparr>"

section \<open>Concrete stores\<close>

text \<open>
  The scenario of the specification: the first \<^verbatim>\<open>state\<close> row, legacy id \<open>1\<close>, resolved
  and committed on an empty store; and the same persisted tables seen by a later
  process, whose generator is a different one.
\<close>

definition st_minted :: "unit world" where
  "st_minted = snd (resolveId (empty_world ()) ''state'' (Val (Num 1)))"

definition st_committed :: "unit world" where
  "st_committed = snd (mapPut st_minted ''state'' (Num 1) ''uuid-0'')"

definition st_restarted :: "unit world" where
  "st_restarted = st_committed\<lparr>uuidv7 := (\<lambda>n. ''later-'' @ decimal n), minted := 0\<rparr>"

definition st_two :: "unit world" where
  "st_two = (empty_world ())\<lparr>migration_map :=
     [\<lparr>entity = ''state'', legacy_id = ''1'', new_id = ''X''\<rparr>,
      \<lparr>entity = ''state'', legacy_id = ''2'', new_id = ''Y''\<rparr>]\<rparr>"

text \<open>
  A destination that records the statements it accepts, one user already migrated, and
  three rows of \<^verbatim>\<open>tb_empresa\<close>: one that carries both legacy keys, one whose user
  is not mapped, and one with the sequence key only.
\<close>

definition log_exec :: "(string \<times> string list) list exec" where
  "log_exec t ids r d = Ok (d @ [(t, ids)])"

definition row_both_keys :: row where
  "row_both_keys =
     [(''co_seq_empresa'', Val (Num 2)), (''id'', Val (Str ''uuid-2'')),
      (''user_id'', Val (Num 10)), (''ds_uf'', Val (Str ''SP''))]"

definition row_no_user :: row where
  "row_no_user =
     [(''co_seq_empresa'', Val (Num 3)), (''user_id'', Val (Num 99)),
      (''ds_uf'', Val (Str ''SP''))]"

definition row_plain :: row where
  "row_plain =
     [(''co_seq_empresa'', Val (Num 1)), (''user_id'', Val (Num 10)),
      (''ds_uf'', Val (Str ''sp''))]"

definition demo_ctx :: ctx where
  "demo_ctx =
     \<lparr>source = (\<lambda>q. if q = ''select * from tb_empresa''
                    then Ok [row_both_keys, row_no_user, row_plain]
                    else Throw ''Table does not exist''),
      mode = Full, tableFilter = None,
      stateByUf = (\<lambda>uf. if uf = ''SP'' then Some ''state-sp'' else None)\<rparr>"

definition demo_world :: "(string \<times> string list) list world" where
  "demo_world = (empty_world [])\<lparr>migration_map :=
     [\<lparr>entity = ''user'', legacy_id = ''10'', new_id = ''user-10''\<rparr>]\<rparr>"

text \<open>
  Two rows that hold the character NUL, as legacy data does: one in the key of the user,
  one in a field that is no key, of a company whose user is not mapped. Each is
  extracted in front of the plain row.
\<close>

definition row_nul_user :: row where
  "row_nul_user =
     [(''co_seq_empresa'', Val (Num 4)), (''user_id'', Val (Str (''10'' @ [CHR 0x00]))),
      (''ds_uf'', Val (Str ''SP''))]"

definition row_nul_name :: row where
  "row_nul_name =
     [(''co_seq_empresa'', Val (Num 5)), (''user_id'', Val (Num 99)),
      (''ds_uf'', Val (Str ''SP'')), (''ds_razao_social'', Val (Str (''ACME'' @ [CHR 0x00])))]"

definition nul_user_ctx :: ctx where
  "nul_user_ctx =
     demo_ctx\<lparr>source := (\<lambda>q. if q = ''select * from tb_empresa''
                                then Ok [row_nul_user, row_plain]
                                else Throw ''Table does not exist'')\<rparr>"

definition nul_name_ctx :: ctx where
  "nul_name_ctx =
     demo_ctx\<lparr>source := (\<lambda>q. if q = ''select * from tb_empresa''
                                then Ok [row_nul_name, row_plain]
                                else Throw ''Table does not exist'')\<rparr>"

text \<open>
  A registry with the tiers 2, 1, 3, 1 in declaration order; the job of tier 3 reads a
  table the source does not have.
\<close>

definition tier_job :: "string \<Rightarrow> int \<Rightarrow> string \<Rightarrow> (string \<times> string list) list job" where
  "tier_job k lv q = (company log_exec)\<lparr>key := k, level := lv, extractSql := (\<lambda>m. q)\<rparr>"

definition demo_registry :: "(string \<times> string list) list job list" where
  "demo_registry =
     [tier_job ''c'' 2 ''select * from tb_empresa'', tier_job ''a'' 1 ''select * from tb_empresa'',
      tier_job ''d'' 3 ''select * from tb_termo'', tier_job ''b'' 1 ''select * from tb_empresa'']"

section \<open>Properties of the IdentityMap\<close>

lemma filter_upd:
  "filter (\<lambda>r. entity r = e \<and> legacy_id r = k) (map (\<lambda>r. if entity r = e' \<and> legacy_id r = k' then r\<lparr>new_id := n\<rparr> else r) rows)
   = map (\<lambda>r. if e = e' \<and> k = k' then r\<lparr>new_id := n\<rparr> else r) (filter (\<lambda>r. entity r = e \<and> legacy_id r = k) rows)"
  by (induction rows) auto

lemma has_key_filter: "has_key rows e k \<longleftrightarrow> filter (\<lambda>r. entity r = e \<and> legacy_id r = k) rows \<noteq> []"
  by (induction rows) (auto simp: has_key_def)

lemma mapPut_Ok:
  assumes "mapPut s e l n = (Ok u, s')"
  shows "\<not> claimed_elsewhere (migration_map s) e (String_js l) n"
    and "s' = s\<lparr>migration_map := put_rows (migration_map s) e (String_js l) n\<rparr>"
  using assms by (simp_all add: mapPut_def Let_def split: if_splits)

lemma mapGet_mapPut:
  assumes "mapPut s e l n = (Ok u, s')"
  shows "mapGet s' e' (Val (Str k')) =
           (if e' = e \<and> k' = String_js l then Some n else mapGet s e' (Val (Str k')))"
  unfolding mapPut_Ok(2)[OF assms]
  by (auto simp: put_rows_def filter_upd has_key_filter split: list.splits)

lemma upd_same:
  "list_all (\<lambda>r. entity r = e \<and> legacy_id r = k \<longrightarrow> new_id r = n) rows \<Longrightarrow>
   map (\<lambda>r. if entity r = e \<and> legacy_id r = k then r\<lparr>new_id := n\<rparr> else r) rows = rows"
  by (induction rows) auto

lemma not_has_key_all:
  "\<not> has_key rows e k \<Longrightarrow> list_all (\<lambda>r. entity r = e \<and> legacy_id r = k \<longrightarrow> P r) rows"
  by (induction rows) (auto simp: has_key_def)

lemma upd_all:
  "list_all (\<lambda>r. entity r = e \<and> legacy_id r = k \<longrightarrow> new_id r = n)
     (map (\<lambda>r. if entity r = e \<and> legacy_id r = k then r\<lparr>new_id := n\<rparr> else r) rows)"
  by (induction rows) auto

lemma put_rows_key:
  "list_all (\<lambda>r. entity r = e \<and> legacy_id r = k \<longrightarrow> new_id r = n) (put_rows rows e k n)"
  by (simp add: put_rows_def upd_all not_has_key_all)

lemma has_key_upd:
  "has_key (map (\<lambda>r. if entity r = e \<and> legacy_id r = k then r\<lparr>new_id := n\<rparr> else r) rows) e' k'
     = has_key rows e' k'"
  by (induction rows) (auto simp: has_key_def)

lemma has_key_append: "has_key (xs @ ys) e k \<longleftrightarrow> has_key xs e k \<or> has_key ys e k"
  by (induction xs) (auto simp: has_key_def)

lemma put_rows_has_key: "has_key (put_rows rows e k n) e' k' \<longleftrightarrow> has_key rows e' k' \<or> (e' = e \<and> k' = k)"
  by (auto simp: put_rows_def has_key_upd has_key_append) (auto simp: has_key_def)

lemma claimed_upd:
  "\<not> claimed_elsewhere rows e k n \<Longrightarrow>
   \<not> claimed_elsewhere (map (\<lambda>r. if entity r = e \<and> legacy_id r = k then r\<lparr>new_id := n\<rparr> else r) rows) e k n"
  by (induction rows) (auto simp: claimed_elsewhere_def)

lemma claimed_append:
  "claimed_elsewhere (xs @ ys) e k n \<longleftrightarrow> claimed_elsewhere xs e k n \<or> claimed_elsewhere ys e k n"
  by (induction xs) (auto simp: claimed_elsewhere_def)

lemma put_rows_not_claimed:
  "\<not> claimed_elsewhere rows e k n \<Longrightarrow> \<not> claimed_elsewhere (put_rows rows e k n) e k n"
  by (simp add: put_rows_def claimed_upd claimed_append) (simp add: claimed_elsewhere_def)

lemma put_again:
  assumes "list_all (\<lambda>r. entity r = e \<and> legacy_id r = String_js l \<longrightarrow> new_id r = n) (migration_map s)"
    and "has_key (migration_map s) e (String_js l)"
    and "\<not> claimed_elsewhere (migration_map s) e (String_js l) n"
  shows "mapPut s e l n = (Ok (), s)"
  using assms by (simp add: mapPut_def Let_def put_rows_def upd_same)

lemma mapPut_other_key:
  assumes "(e', String_js l') \<noteq> (e, k)"
  shows "mapGet (snd (mapPut s e' l' m)) e (Val (Str k)) = mapGet s e (Val (Str k))"
proof (cases "mapPut s e' l' m")
  case (Pair r s')
  show ?thesis
  proof (cases r)
    case (Ok u)
    with Pair have "mapPut s e' l' m = (Ok u, s')" by simp
    from mapGet_mapPut [OF this, of e k] assms Pair show ?thesis by auto
  next
    case (Throw x)
    with Pair have "s' = s" by (auto simp: mapPut_def Let_def split: if_splits)
    with Pair show ?thesis by simp
  qed
qed

text \<open>
  Claim C1. Let \<^verbatim>\<open>resolveId(E, L)\<close> return the id \<open>N\<close> and let
  \<^verbatim>\<open>mapPut(E, L, N)\<close> commit it. Then in every state that holds the same persisted
  map, whatever its generator and however many ids it has minted (a later call, or a
  fresh process), \<^verbatim>\<open>resolveId(E, L)\<close> returns \<open>N\<close> without minting, and committing
  \<open>N\<close> again is accepted and leaves the state as it is, so any number of further
  rounds yields \<open>N\<close>; a put under any other key does not disturb it either. \<open>L\<close>
  ranges over \<^verbatim>\<open>string | number\<close>, the type \<^verbatim>\<open>mapPut\<close> accepts.
\<close>

theorem resolve_commit_idempotent:
  assumes "resolveId s E (Val L) = (N, s1)" and "mapPut s1 E L N = (Ok u, s2)"
    and "migration_map s3 = migration_map s2"
  shows "resolveId s3 E (Val L) = (N, s3) \<and> mapPut s3 E L N = (Ok (), s3) \<and>
         ((E', String_js L') \<noteq> (E, String_js L) \<longrightarrow>
            fst (resolveId (snd (mapPut s3 E' L' M)) E (Val L)) = N)"
proof -
  note p = assms(2)
  have g: "mapGet s2 E (Val L) = Some N"
    using mapGet_mapPut [OF p, of E "String_js L"] by simp
  have g3: "mapGet s3 E (Val L) = Some N"
    using g assms(3) by simp
  then have r3: "resolveId s3 E (Val L) = (N, s3)"
    by (simp add: resolveId_def)
  have m: "migration_map s3 = put_rows (migration_map s1) E (String_js L) N"
    using mapPut_Ok(2) [OF p] assms(3) by simp
  have c: "mapPut s3 E L N = (Ok (), s3)"
    by (rule put_again)
      (simp_all add: m put_rows_key put_rows_has_key put_rows_not_claimed mapPut_Ok(1) [OF p])
  have o: "(E', String_js L') \<noteq> (E, String_js L) \<longrightarrow>
            fst (resolveId (snd (mapPut s3 E' L' M)) E (Val L)) = N"
  proof
    assume "(E', String_js L') \<noteq> (E, String_js L)"
    from mapPut_other_key [OF this, of s3 M] g3
    have "mapGet (snd (mapPut s3 E' L' M)) E (Val L) = Some N" by simp
    then show "fst (resolveId (snd (mapPut s3 E' L' M)) E (Val L)) = N"
      by (simp add: resolveId_def)
  qed
  from r3 c o show ?thesis by blast
qed

text \<open>
  The scenario at legacy id \<open>1\<close> of entity \<^verbatim>\<open>state\<close>: the first round mints
  \<open>uuid-0\<close>; the restarted process, whose generator would mint \<open>later-0\<close>, resolves
  to \<open>uuid-0\<close> again, also after legacy id \<open>2\<close> has been committed.
\<close>

theorem resolve_commit_idempotent_witness:
  "resolveId (empty_world ()) ''state'' (Val (Num 1)) = (''uuid-0'', st_minted) \<and>
   mapPut st_minted ''state'' (Num 1) ''uuid-0'' = (Ok (), st_committed) \<and>
   migration_map st_restarted = migration_map st_committed \<and>
   resolveId st_restarted ''state'' (Val (Num 1)) = (''uuid-0'', st_restarted) \<and>
   mapPut st_restarted ''state'' (Num 1) ''uuid-0'' = (Ok (), st_restarted) \<and>
   (''state'', String_js (Num 2)) \<noteq> (''state'', String_js (Num 1)) \<and>
   fst (resolveId (snd (mapPut st_restarted ''state'' (Num 2) ''uuid-1'')) ''state'' (Val (Num 1)))
     = ''uuid-0''"
proof -
  have h1: "resolveId (empty_world ()) ''state'' (Val (Num 1)) = (''uuid-0'', st_minted)"
    by (rule prod_eqI)
      (simp_all add: st_minted_def resolveId_def newId_def empty_world_def decimal.simps digit_def)
  have h2: "mapPut st_minted ''state'' (Num 1) ''uuid-0'' = (Ok (), st_committed)"
    by (rule prod_eqI)
      (simp_all add: st_committed_def st_minted_def resolveId_def newId_def empty_world_def
        mapPut_def claimed_elsewhere_def)
  have h3: "migration_map st_restarted = migration_map st_committed"
    by (simp add: st_restarted_def)
  have h4: "(''state'', String_js (Num 2)) \<noteq> (''state'', String_js (Num 1))"
    by code_simp
  show ?thesis
    using resolve_commit_idempotent [OF h1 h2 h3, of "''state''" "Num 2" "''uuid-1''"] h1 h2 h3 h4
    by blast
qed


text \<open>
  Claim C10. For a \<^verbatim>\<open>null\<close> or \<^verbatim>\<open>undefined\<close> legacy id, \<^verbatim>\<open>mapGet\<close> returns
  \<^verbatim>\<open>null\<close> in every store \<open>s\<close>, whatever the persisted map holds; the lookup
  returns a value only and leaves the store as it is.
\<close>

theorem mapGet_missing_id: "mapGet s E Null = None \<and> mapGet s E Undefined = None"
  by simp

text \<open>The same on a store with two mappings.\<close>

theorem mapGet_missing_id_witness:
  "mapGet st_two ''state'' Null = None \<and> mapGet st_two ''state'' Undefined = None"
  using mapGet_missing_id [of st_two "''state''"] by simp

lemma mapGet_Str: "mapGet s e (Val l) = mapGet s e (Val (Str (String_js l)))"
  by simp

lemma mapPut_Str: "mapPut s e l n = mapPut s e (Str (String_js l)) n"
  by (simp add: mapPut_def)

lemma mapPut_fst_Ok: "fst (mapPut s e l n) = Ok () \<Longrightarrow> mapPut s e l n = (Ok (), snd (mapPut s e l n))"
  by (cases "mapPut s e l n") simp

lemma mapGetAny_string_form:
  "mapGetAny s E (cs @ Val v # ds) = mapGetAny s E (cs @ Val (Str (String_js v)) # ds)"
  by (induction cs) (auto simp: Let_def split: option.splits)

text \<open>
  Claim C9. A number \<open>n\<close> and its string form \<^verbatim>\<open>String(n)\<close> are the same legacy
  key: a mapping put under one is read under the other, and \<^verbatim>\<open>mapPut\<close>,
  \<^verbatim>\<open>mapGet\<close>, \<^verbatim>\<open>resolveId\<close>, \<^verbatim>\<open>mapPutBoth\<close> (either key) and
  \<^verbatim>\<open>mapGetAny\<close> (any candidate) give the same result on both forms.
\<close>

theorem legacy_id_string_form:
  "(fst (mapPut s E (Num n) N) = Ok () \<longrightarrow>
      mapGet (snd (mapPut s E (Num n) N)) E (Val (Str (String_js (Num n)))) = Some N) \<and>
   (fst (mapPut s E (Str (String_js (Num n))) N) = Ok () \<longrightarrow>
      mapGet (snd (mapPut s E (Str (String_js (Num n))) N)) E (Val (Num n)) = Some N) \<and>
   mapPut s E (Num n) N = mapPut s E (Str (String_js (Num n))) N \<and>
   mapGet s E (Val (Num n)) = mapGet s E (Val (Str (String_js (Num n)))) \<and>
   resolveId s E (Val (Num n)) = resolveId s E (Val (Str (String_js (Num n)))) \<and>
   mapPutBoth s E (Val (Num n)) B N = mapPutBoth s E (Val (Str (String_js (Num n)))) B N \<and>
   mapPutBoth s E A (Val (Num n)) N = mapPutBoth s E A (Val (Str (String_js (Num n)))) N \<and>
   mapGetAny s E (cs @ Val (Num n) # ds) = mapGetAny s E (cs @ Val (Str (String_js (Num n))) # ds)"
proof -
  have a: "fst (mapPut s E (Num n) N) = Ok () \<longrightarrow>
      mapGet (snd (mapPut s E (Num n) N)) E (Val (Str (String_js (Num n)))) = Some N"
    using mapGet_mapPut [OF mapPut_fst_Ok, of s E "Num n" N E "String_js (Num n)"] by simp
  have b: "fst (mapPut s E (Str (String_js (Num n))) N) = Ok () \<longrightarrow>
      mapGet (snd (mapPut s E (Str (String_js (Num n))) N)) E (Val (Num n)) = Some N"
    using mapGet_mapPut [OF mapPut_fst_Ok, of s E "Str (String_js (Num n))" N E "String_js (Num n)"]
    by (simp del: String_js.simps(2) add: mapGet_Str [of _ _ "Num n"])
  have c: "mapPut s E (Num n) N = mapPut s E (Str (String_js (Num n))) N"
    by (rule mapPut_Str)
  have d: "mapGet s E (Val (Num n)) = mapGet s E (Val (Str (String_js (Num n))))"
    by (rule mapGet_Str)
  have e: "resolveId s E (Val (Num n)) = resolveId s E (Val (Str (String_js (Num n))))"
    unfolding resolveId_def mapGet_Str [of s E "Num n"] ..
  have f: "mapPutBoth s E (Val (Num n)) B N = mapPutBoth s E (Val (Str (String_js (Num n)))) B N"
    by (simp add: mapPutBoth_def)
  have g: "mapPutBoth s E A (Val (Num n)) N = mapPutBoth s E A (Val (Str (String_js (Num n)))) N"
    by (simp add: mapPutBoth_def)
  have h: "mapGetAny s E (cs @ Val (Num n) # ds) = mapGetAny s E (cs @ Val (Str (String_js (Num n))) # ds)"
    by (rule mapGetAny_string_form)
  from a b c d e f g h show ?thesis by blast
qed

text \<open>Legacy id \<open>7\<close> and the string \<open>''7''\<close> on the empty store.\<close>

theorem legacy_id_string_form_witness:
  "fst (mapPut (empty_world ()) ''state'' (Num 7) ''X'') = Ok () \<and>
   mapGet (snd (mapPut (empty_world ()) ''state'' (Num 7) ''X'')) ''state'' (Val (Str ''7'')) = Some ''X'' \<and>
   fst (mapPut (empty_world ()) ''state'' (Str ''7'') ''X'') = Ok () \<and>
   mapGet (snd (mapPut (empty_world ()) ''state'' (Str ''7'') ''X'')) ''state'' (Val (Num 7)) = Some ''X''"
proof -
  have s7: "String_js (Num 7) = ''7''" by (simp add: decimal.simps digit_def)
  have h1: "fst (mapPut (empty_world ()) ''state'' (Num 7) ''X'') = Ok ()"
    by (simp add: mapPut_def empty_world_def claimed_elsewhere_def)
  have h2: "fst (mapPut (empty_world ()) ''state'' (Str ''7'') ''X'') = Ok ()"
    by (simp add: mapPut_def empty_world_def claimed_elsewhere_def)
  show ?thesis
    using legacy_id_string_form [of "empty_world ()" "''state''" 7 "''X''"] h1 h2
    unfolding s7 by blast
qed

lemma has_key_set:
  "has_key rows e k \<longleftrightarrow> (e, k) \<in> set (map (\<lambda>r. (entity r, legacy_id r)) rows)"
  by (induction rows) (auto simp: has_key_def)

lemma key_rows_of_get:
  "distinct (map (\<lambda>r. (entity r, legacy_id r)) (rows :: map_row list)) \<Longrightarrow>
   filter (\<lambda>r. entity r = e \<and> legacy_id r = k) rows = r # rs \<Longrightarrow>
   list_all (\<lambda>x. entity x = e \<and> legacy_id x = k \<longrightarrow> new_id x = new_id r) rows"
proof (induction rows arbitrary: r rs)
  case Nil
  then show ?case by simp
next
  case (Cons a rows)
  show ?case
  proof (cases "entity a = e \<and> legacy_id a = k")
    case True
    with Cons.prems have ar: "a = r" by simp
    from True Cons.prems(1) have "\<not> has_key rows e k"
      by (simp add: has_key_set)
    then have "list_all (\<lambda>x. entity x = e \<and> legacy_id x = k \<longrightarrow> new_id x = new_id r) rows"
      by (rule not_has_key_all)
    with ar show ?thesis by simp
  next
    case False
    with Cons show ?thesis by auto
  qed
qed

lemma get_not_claimed:
  assumes "distinct (map (\<lambda>r. (entity r, new_id r)) (rows :: map_row list))"
    and "filter (\<lambda>r. entity r = e \<and> legacy_id r = k) rows = r # rs"
  shows "\<not> claimed_elsewhere rows e k (new_id r)"
proof
  assume "claimed_elsewhere rows e k (new_id r)"
  then obtain x where x: "x \<in> set rows" "entity x = e" "new_id x = new_id r" "legacy_id x \<noteq> k"
    by (auto simp: claimed_elsewhere_def list_ex_iff)
  have "r \<in> set (filter (\<lambda>r. entity r = e \<and> legacy_id r = k) rows)"
    using assms(2) by simp
  then have r: "r \<in> set rows" "entity r = e" "legacy_id r = k" by auto
  have "inj_on (\<lambda>r. (entity r, new_id r)) (set rows)"
    using assms(1) by (simp add: distinct_map)
  with x r have "x = r" by (auto dest: inj_onD)
  with x r show False by simp
qed

lemma keys_upd:
  "map (\<lambda>r. (entity r, legacy_id r)) (map (\<lambda>r. if entity r = e \<and> legacy_id r = k then r\<lparr>new_id := n\<rparr> else r) rows)
   = map (\<lambda>r. (entity r, legacy_id r)) (rows :: map_row list)"
  by (induction rows) auto

lemma ids_upd:
  "distinct (map (\<lambda>r. (entity r, legacy_id r)) (rows :: map_row list)) \<Longrightarrow>
   distinct (map (\<lambda>r. (entity r, new_id r)) rows) \<Longrightarrow>
   \<not> claimed_elsewhere rows e k n \<Longrightarrow>
   distinct (map (\<lambda>r. (entity r, new_id r)) (map (\<lambda>r. if entity r = e \<and> legacy_id r = k then r\<lparr>new_id := n\<rparr> else r) rows))"
proof (induction rows)
  case Nil
  then show ?case by simp
next
  case (Cons a rows)
  have nc: "\<not> claimed_elsewhere rows e k n"
    using Cons.prems(3) by (simp add: claimed_elsewhere_def)
  have ih: "distinct (map (\<lambda>r. (entity r, new_id r)) (map (\<lambda>r. if entity r = e \<and> legacy_id r = k then r\<lparr>new_id := n\<rparr> else r) rows))"
    using Cons nc by simp
  show ?case
  proof (cases "entity a = e \<and> legacy_id a = k")
    case True
    with Cons.prems(1) have "\<not> has_key rows e k"
      by (simp add: has_key_set)
    then have same: "map (\<lambda>r. if entity r = e \<and> legacy_id r = k then r\<lparr>new_id := n\<rparr> else r) rows = rows"
      by (intro upd_same not_has_key_all)
    have "(e, n) \<notin> set (map (\<lambda>r. (entity r, new_id r)) rows)"
    proof
      assume "(e, n) \<in> set (map (\<lambda>r. (entity r, new_id r)) rows)"
      then obtain x where x: "x \<in> set rows" "entity x = e" "new_id x = n" by auto
      with \<open>\<not> has_key rows e k\<close> have "legacy_id x \<noteq> k"
        by (auto simp: has_key_def list_ex_iff)
      with x nc show False by (auto simp: claimed_elsewhere_def list_ex_iff)
    qed
    with True Cons.prems(2) show ?thesis by (simp add: same)
  next
    case False
    have "(entity a, new_id a) \<notin> set (map (\<lambda>r. (entity r, new_id r)) (map (\<lambda>r. if entity r = e \<and> legacy_id r = k then r\<lparr>new_id := n\<rparr> else r) rows))"
    proof
      assume "(entity a, new_id a) \<in> set (map (\<lambda>r. (entity r, new_id r)) (map (\<lambda>r. if entity r = e \<and> legacy_id r = k then r\<lparr>new_id := n\<rparr> else r) rows))"
      then obtain x where x: "x \<in> set rows"
        "(entity a, new_id a) = (if entity x = e \<and> legacy_id x = k then (e, n) else (entity x, new_id x))"
        by (auto split: if_splits)
      show False
      proof (cases "entity x = e \<and> legacy_id x = k")
        case True
        with x have "entity a = e" "new_id a = n" by simp_all
        with False Cons.prems(3) show False by (auto simp: claimed_elsewhere_def)
      next
        case False
        with x have "(entity a, new_id a) \<in> set (map (\<lambda>r. (entity r, new_id r)) rows)" by force
        with Cons.prems(2) show False by simp
      qed
    qed
    with False ih show ?thesis by (auto simp del: map_map set_map)
  qed
qed

lemma map_ok_put_rows:
  assumes "map_ok rows" and "\<not> claimed_elsewhere rows e k n"
  shows "map_ok (put_rows rows e k n)"
proof (cases "has_key rows e k")
  case True
  with assms show ?thesis
    unfolding map_ok_def put_rows_def by (simp del: map_map add: keys_upd ids_upd)
next
  case False
  have "(e, n) \<notin> set (map (\<lambda>r. (entity r, new_id r)) rows)"
  proof
    assume "(e, n) \<in> set (map (\<lambda>r. (entity r, new_id r)) rows)"
    then obtain x where x: "x \<in> set rows" "entity x = e" "new_id x = n" by auto
    with False have "legacy_id x \<noteq> k" by (auto simp: has_key_def list_ex_iff)
    with x assms(2) show False by (auto simp: claimed_elsewhere_def list_ex_iff)
  qed
  moreover have "(e, k) \<notin> set (map (\<lambda>r. (entity r, legacy_id r)) rows)"
    using False by (auto simp: has_key_def list_ex_iff)
  ultimately show ?thesis
    using assms(1) False by (simp add: map_ok_def put_rows_def)
qed

lemma map_ok_mapPut: "map_ok (migration_map s) \<Longrightarrow> map_ok (migration_map (snd (mapPut s e l n)))"
  by (simp add: mapPut_def Let_def map_ok_put_rows)

text \<open>
  Claim C6, amended. Let \<open>(E, L)\<close> be committed to \<open>N\<close> in a table that satisfies its two
  uniqueness constraints. A later \<^verbatim>\<open>put(E, L, M)\<close> sets the mapping to \<open>M\<close> (the
  conflict clause overwrites \<^verbatim>\<open>new_id\<close>) unless another legacy key of \<open>E\<close> holds
  \<open>M\<close>, in which case the statement is rejected and the mapping stays \<open>N\<close>. Putting
  the committed id \<open>N\<close> again is accepted and changes nothing, so the mapping is stable
  as long as callers pass the id that \<^verbatim>\<open>resolveId\<close> returned. Every put keeps both
  uniqueness constraints.
\<close>

theorem mapPut_last_write_wins:
  assumes "map_ok (migration_map s)" and "mapGet s E (Val L) = Some N"
  shows "mapGet (snd (mapPut s E L M)) E (Val L) =
           Some (if claimed_elsewhere (migration_map s) E (String_js L) M then N else M) \<and>
         fst (mapPut s E L M) =
           (if claimed_elsewhere (migration_map s) E (String_js L) M then Throw duplicate_new_id
            else Ok ()) \<and>
         mapPut s E L N = (Ok (), s) \<and>
         map_ok (migration_map (snd (mapPut s E L M)))"
proof -
  obtain r rs where f: "filter (\<lambda>r. entity r = E \<and> legacy_id r = String_js L) (migration_map s) = r # rs"
    and n: "new_id r = N"
    using assms(2) by (auto split: list.splits)
  have a: "mapGet (snd (mapPut s E L M)) E (Val L) =
           Some (if claimed_elsewhere (migration_map s) E (String_js L) M then N else M)"
  proof (cases "claimed_elsewhere (migration_map s) E (String_js L) M")
    case True
    then show ?thesis using assms(2) by (simp add: mapPut_def Let_def)
  next
    case False
    then have "mapPut s E L M = (Ok (), snd (mapPut s E L M))"
      by (simp add: mapPut_def Let_def)
    from mapGet_mapPut [OF this, of E "String_js L"] False show ?thesis by simp
  qed
  have b: "fst (mapPut s E L M) =
           (if claimed_elsewhere (migration_map s) E (String_js L) M then Throw duplicate_new_id
            else Ok ())"
    by (simp add: mapPut_def Let_def)
  have c: "mapPut s E L N = (Ok (), s)"
  proof (rule put_again)
    show "list_all (\<lambda>r. entity r = E \<and> legacy_id r = String_js L \<longrightarrow> new_id r = N) (migration_map s)"
      using key_rows_of_get [OF _ f] assms(1) n by (simp add: map_ok_def)
    show "has_key (migration_map s) E (String_js L)"
      using f by (simp add: has_key_filter)
    show "\<not> claimed_elsewhere (migration_map s) E (String_js L) N"
      using get_not_claimed [OF _ f] assms(1) n by (simp add: map_ok_def)
  qed
  have d: "map_ok (migration_map (snd (mapPut s E L M)))"
    using assms(1) by (rule map_ok_mapPut)
  from a b c d show ?thesis by blast
qed

text \<open>
  With legacy ids \<open>1\<close> and \<open>2\<close> of \<^verbatim>\<open>state\<close> committed to \<open>X\<close> and \<open>Y\<close>: putting
  \<open>Z\<close> under \<open>1\<close> re-points it, putting \<open>Y\<close> is rejected, putting \<open>X\<close> changes nothing.
\<close>

theorem mapPut_last_write_wins_witness:
  "map_ok (migration_map st_two) \<and> mapGet st_two ''state'' (Val (Num 1)) = Some ''X'' \<and>
   mapGet (snd (mapPut st_two ''state'' (Num 1) ''Z'')) ''state'' (Val (Num 1)) = Some ''Z'' \<and>
   fst (mapPut st_two ''state'' (Num 1) ''Z'') = Ok () \<and>
   mapGet (snd (mapPut st_two ''state'' (Num 1) ''Y'')) ''state'' (Val (Num 1)) = Some ''X'' \<and>
   fst (mapPut st_two ''state'' (Num 1) ''Y'') = Throw duplicate_new_id \<and>
   mapPut st_two ''state'' (Num 1) ''X'' = (Ok (), st_two) \<and>
   map_ok (migration_map (snd (mapPut st_two ''state'' (Num 1) ''Z'')))"
proof -
  have s1: "String_js (Num 1) = ''1''" by code_simp
  have h1: "map_ok (migration_map st_two)"
    by (simp add: st_two_def empty_world_def map_ok_def)
  have h2: "mapGet st_two ''state'' (Val (Num 1)) = Some ''X''"
    by (simp del: String_js.simps add: st_two_def empty_world_def s1)
  have z: "\<not> claimed_elsewhere (migration_map st_two) ''state'' ''1'' ''Z''"
    by (simp add: st_two_def empty_world_def claimed_elsewhere_def)
  have y: "claimed_elsewhere (migration_map st_two) ''state'' ''1'' ''Y''"
    by (simp add: st_two_def empty_world_def claimed_elsewhere_def)
  show ?thesis
    using mapPut_last_write_wins [OF h1 h2, of "''Z''"] mapPut_last_write_wins [OF h1 h2, of "''Y''"]
      h1 h2 z y
    unfolding s1 by (simp del: mapGet.simps String_js.simps)
qed

text \<open>
  Claim C6 as the specification words it (no later put changes a committed mapping) does
  not hold: on the empty store, legacy id \<open>1\<close> of \<^verbatim>\<open>state\<close> is committed to \<open>X\<close>, and
  a second put with \<open>Y\<close> is accepted and re-points it to \<open>Y\<close>.
\<close>

theorem mapPut_repoints_counterexample:
  "fst (mapPut (empty_world ()) ''state'' (Num 1) ''X'') = Ok () \<and>
   mapGet (snd (mapPut (empty_world ()) ''state'' (Num 1) ''X'')) ''state'' (Val (Num 1)) = Some ''X'' \<and>
   fst (mapPut (snd (mapPut (empty_world ()) ''state'' (Num 1) ''X'')) ''state'' (Num 1) ''Y'') = Ok () \<and>
   mapGet (snd (mapPut (snd (mapPut (empty_world ()) ''state'' (Num 1) ''X'')) ''state'' (Num 1) ''Y''))
     ''state'' (Val (Num 1)) = Some ''Y''"
  by (simp add: mapPut_def empty_world_def claimed_elsewhere_def put_rows_def has_key_def
      decimal.simps digit_def)

lemma mapPut_row_present:
  assumes "mapPut s e l n = (Ok u, s')"
  shows "list_ex (\<lambda>r. entity r = e \<and> legacy_id r = String_js l \<and> new_id r = n) (migration_map s')"
proof -
  have k: "has_key (migration_map s') e (String_js l)"
    using mapPut_Ok(2) [OF assms] by (simp add: put_rows_has_key)
  have a: "list_all (\<lambda>r. entity r = e \<and> legacy_id r = String_js l \<longrightarrow> new_id r = n) (migration_map s')"
    using mapPut_Ok(2) [OF assms] by (simp add: put_rows_key)
  from k a show ?thesis
    by (auto simp: has_key_def list_ex_iff list_all_iff)
qed

text \<open>
  In every store, \<^verbatim>\<open>mapPutBoth\<close> with two keys that normalise to different strings
  throws: either the first put is rejected, or it leaves a row that holds the new id, and
  \<^verbatim>\<open>unique (entity, new_id)\<close> then rejects the second.
\<close>

lemma mapPutBoth_distinct_keys_throw:
  assumes "normalizeLegacyId A = Some a" and "normalizeLegacyId B = Some b" and "a \<noteq> b"
  shows "fst (mapPutBoth s E A B N) = Throw duplicate_new_id"
proof (cases "mapPut s E (Str a) N")
  case (Pair r s1)
  show ?thesis
  proof (cases r)
    case (Throw m)
    with Pair have "m = duplicate_new_id"
      by (auto simp: mapPut_def Let_def split: if_splits)
    with Throw Pair assms show ?thesis by (simp add: mapPutBoth_def)
  next
    case (Ok u)
    with Pair have "list_ex (\<lambda>r. entity r = E \<and> legacy_id r = a \<and> new_id r = N) (migration_map s1)"
      using mapPut_row_present [of s E "Str a" N u s1] by simp
    with assms(3) have "claimed_elsewhere (migration_map s1) E b N"
      by (auto simp: claimed_elsewhere_def list_ex_iff)
    then have "fst (mapPut s1 E (Str b) N) = Throw duplicate_new_id"
      by (simp add: mapPut_def Let_def)
    with Ok Pair assms show ?thesis by (simp add: mapPutBoth_def)
  qed
qed

text \<open>
  \<^verbatim>\<open>mapGetAny\<close> returns the first non-empty id among the mappings of the candidates
  that normalise to a key, in candidate order, and \<^verbatim>\<open>null\<close> when there is none.
\<close>

lemma mapGetAny_first_hit:
  "mapGetAny s e cs =
     (case filter (\<lambda>i. i \<noteq> [])
             (List.map_filter
                (\<lambda>c. case normalizeLegacyId c of
                        None \<Rightarrow> None
                      | Some v \<Rightarrow> mapGet s e (Val (Str v))) cs) of
        [] \<Rightarrow> None
      | i # _ \<Rightarrow> Some i)"
  by (induction cs) (auto simp: map_filter_simps split: option.splits)

text \<open>
  When \<^verbatim>\<open>mapPutBoth\<close> completes, every key it was given resolves to the new id; it
  completes only when at most one distinct key is present.
\<close>

lemma mapPutBoth_accepted:
  assumes "mapPutBoth s e A B n = (Ok u, s')"
  shows "normalizeLegacyId A = Some a \<Longrightarrow> mapGet s' e (Val (Str a)) = Some n"
    and "normalizeLegacyId B = Some b \<Longrightarrow> mapGet s' e (Val (Str b)) = Some n"
    and "normalizeLegacyId A = None \<or> normalizeLegacyId B = None \<or>
         normalizeLegacyId A = normalizeLegacyId B"
proof -
  have ok: "fst (mapPutBoth s e A B n) = Ok ()" using assms by simp
  show 3: "normalizeLegacyId A = None \<or> normalizeLegacyId B = None \<or>
         normalizeLegacyId A = normalizeLegacyId B"
  proof (rule ccontr)
    assume "\<not> ?thesis"
    then obtain a' b' where "normalizeLegacyId A = Some a'" "normalizeLegacyId B = Some b'" "a' \<noteq> b'"
      by auto
    from mapPutBoth_distinct_keys_throw [OF this, of s e n] ok show False by simp
  qed
  show "normalizeLegacyId A = Some a \<Longrightarrow> mapGet s' e (Val (Str a)) = Some n"
  proof -
    assume a: "normalizeLegacyId A = Some a"
    obtain r1 s1 where p: "mapPut s e (Str a) n = (r1, s1)" by (cases "mapPut s e (Str a) n") auto
    from 3 a have "normalizeLegacyId B = None \<or> normalizeLegacyId B = Some a" by auto
    with assms a p have "r1 = Ok ()" "s' = s1"
      by (auto simp: mapPutBoth_def Let_def split: result.splits)
    with p mapGet_mapPut [of s e "Str a" n "()" s1 e a] show ?thesis by simp
  qed
  show "normalizeLegacyId B = Some b \<Longrightarrow> mapGet s' e (Val (Str b)) = Some n"
  proof -
    assume b: "normalizeLegacyId B = Some b"
    from 3 b consider "normalizeLegacyId A = None" | "normalizeLegacyId A = Some b" by auto
    then show ?thesis
    proof cases
      case 1
      with assms b have "mapPut s e (Str b) n = (Ok u, s')"
        by (auto simp: mapPutBoth_def Let_def)
      from mapGet_mapPut [OF this, of e b] show ?thesis by simp
    next
      case 2
      obtain r1 s1 where p: "mapPut s e (Str b) n = (r1, s1)" by (cases "mapPut s e (Str b) n") auto
      with assms b 2 have "r1 = Ok ()" "s' = s1"
        by (auto simp: mapPutBoth_def Let_def split: result.splits)
      with p mapGet_mapPut [of s e "Str b" n "()" s1 e b] show ?thesis by simp
    qed
  qed
qed

text \<open>
  Claim C2, at the specification's own example \<^verbatim>\<open>putBoth(E, "7", "uuid-abc", N)\<close> on
  the empty map. The claim says that both keys then resolve to \<open>N\<close>. The code commits
  \<open>7\<close>, and its second statement violates \<^verbatim>\<open>unique (entity, new_id)\<close> and throws:
  \<^verbatim>\<open>get(E, "uuid-abc")\<close> and \<^verbatim>\<open>getAny(E, null, "uuid-abc")\<close> return
  \<^verbatim>\<open>null\<close>; only the lookups that reach the first key return \<open>N\<close>.
\<close>

theorem mapPutBoth_second_key_rejected:
  "fst (mapPutBoth (empty_world ()) ''user'' (Val (Str ''7'')) (Val (Str ''uuid-abc'')) ''N'')
     = Throw duplicate_new_id \<and>
   mapGet (snd (mapPutBoth (empty_world ()) ''user'' (Val (Str ''7'')) (Val (Str ''uuid-abc'')) ''N''))
     ''user'' (Val (Str ''7'')) = Some ''N'' \<and>
   mapGet (snd (mapPutBoth (empty_world ()) ''user'' (Val (Str ''7'')) (Val (Str ''uuid-abc'')) ''N''))
     ''user'' (Val (Str ''uuid-abc'')) = None \<and>
   mapGetAny (snd (mapPutBoth (empty_world ()) ''user'' (Val (Str ''7'')) (Val (Str ''uuid-abc'')) ''N''))
     ''user'' [Val (Str ''7''), Val (Str ''uuid-abc'')] = Some ''N'' \<and>
   mapGetAny (snd (mapPutBoth (empty_world ()) ''user'' (Val (Str ''7'')) (Val (Str ''uuid-abc'')) ''N''))
     ''user'' [Null, Val (Str ''uuid-abc'')] = None"
  by (simp add: mapPutBoth_def mapPut_def empty_world_def claimed_elsewhere_def put_rows_def
      has_key_def trim_def is_ws_def Let_def)

section \<open>Properties of the orchestrator\<close>


lemma insertError_frame:
  "migration_runs (snd (insertError s e)) = migration_runs s"
  "runs_seq (snd (insertError s e)) = runs_seq s"
  "migration_checkpoints (snd (insertError s e)) = migration_checkpoints s"
  "migration_map (snd (insertError s e)) = migration_map s"
  "dest (snd (insertError s e)) = dest s"
  by (simp_all add: insertError_def)

lemma insertError_accepted:
  "\<not> error_refused e \<Longrightarrow>
   insertError s e = (Ok (), s\<lparr>migration_errors := migration_errors s @ [e]\<rparr>)"
  by (simp add: insertError_def error_refused_def)

lemma insertError_refused:
  "error_refused e \<Longrightarrow>
   insertError s e =
     (Throw (if has_nul (err_legacy_id e) \<or> has_nul (err_message e) then invalid_byte
             else bad_escape), s)"
  by (auto simp: insertError_def error_refused_def)

lemma insertError_state:
  "snd (insertError s e) = s \<or>
   snd (insertError s e) = s\<lparr>migration_errors := migration_errors s @ [e]\<rparr>"
  by (simp add: insertError_def)

lemma control_frameD:
  assumes "control_frame u" and "u r c s = (res, s')"
  shows "migration_runs s' = migration_runs s" and "runs_seq s' = runs_seq s"
    and "migration_errors s' = migration_errors s"
    and "migration_checkpoints s' = migration_checkpoints s"
proof -
  have "s' = snd (u r c s)" using assms(2) by simp
  with assms(1) show "migration_runs s' = migration_runs s" and "runs_seq s' = runs_seq s"
    and "migration_errors s' = migration_errors s"
    and "migration_checkpoints s' = migration_checkpoints s"
    by (simp_all add: control_frame_def)
qed

lemma upsert_cases:
  obtains s' where "upsert j r c s = (Ok True, s')"
  | s' where "upsert j r c s = (Ok False, s')"
  | m s' where "upsert j r c s = (Throw m, s')"
proof (cases "upsert j r c s")
  case (Pair res s')
  then show ?thesis
    using that by (cases res) auto
qed

lemma runJob_row_catch_state:
  "st (snd (runJob_row_catch j rid l r s' m)) = snd (insertError s' (error_entry j rid r Load m))"
  by (cases "insertError s' (error_entry j rid r Load m)")
     (auto simp: runJob_row_catch_def split: result.splits)

lemma runJob_row_catch_frame:
  "migration_runs (st (snd (runJob_row_catch j rid l r s' m))) = migration_runs s'"
  "runs_seq (st (snd (runJob_row_catch j rid l r s' m))) = runs_seq s'"
  "migration_checkpoints (st (snd (runJob_row_catch j rid l r s' m))) = migration_checkpoints s'"
  "migration_map (st (snd (runJob_row_catch j rid l r s' m))) = migration_map s'"
  "dest (st (snd (runJob_row_catch j rid l r s' m))) = dest s'"
  by (simp_all add: runJob_row_catch_state insertError_frame)

lemma runJob_row_True:
  "upsert j r c (st l) = (Ok True, s') \<Longrightarrow>
   runJob_row j c rid l r =
     (Ok (), \<lparr>st = s', lidos = Suc (lidos l), inseridos = Suc (inseridos l)\<rparr>)"
  by (simp add: runJob_row_def)

lemma runJob_row_False:
  "upsert j r c (st l) = (Ok False, s') \<Longrightarrow>
   runJob_row j c rid l r =
     (case insertError s' (error_entry j rid r Validate skipped_message) of
        (Ok u, s'') \<Rightarrow> (Ok (), \<lparr>st = s'', lidos = Suc (lidos l), inseridos = inseridos l\<rparr>)
      | (Throw m, s'') \<Rightarrow> runJob_row_catch j rid l r s'' m)"
  by (simp add: runJob_row_def)

lemma runJob_row_Throw:
  "upsert j r c (st l) = (Throw m, s') \<Longrightarrow>
   runJob_row j c rid l r = runJob_row_catch j rid l r s' m"
  by (simp add: runJob_row_def)

lemma runJob_row_frame:
  assumes "control_frame (upsert j)"
  shows "migration_runs (st (snd (runJob_row j c rid l r))) = migration_runs (st l) \<and>
         runs_seq (st (snd (runJob_row j c rid l r))) = runs_seq (st l) \<and>
         migration_checkpoints (st (snd (runJob_row j c rid l r))) = migration_checkpoints (st l)"
proof (cases rule: upsert_cases [of j r c "st l"])
  case (1 s')
  with control_frameD [OF assms 1] show ?thesis by (simp add: runJob_row_True)
next
  case (2 s')
  let ?e = "error_entry j rid r Validate skipped_message"
  obtain res s'' where p: "insertError s' ?e = (res, s'')"
    by (cases "insertError s' ?e") auto
  have f: "migration_runs s'' = migration_runs s'" "runs_seq s'' = runs_seq s'"
    "migration_checkpoints s'' = migration_checkpoints s'"
    using insertError_frame(1,2,3) [of s' ?e] p by simp_all
  show ?thesis
    using control_frameD [OF assms 2] f
    by (cases res) (simp_all add: runJob_row_False [OF 2] p runJob_row_catch_frame)
next
  case (3 m s')
  with control_frameD [OF assms 3] show ?thesis
    by (simp add: runJob_row_Throw runJob_row_catch_frame)
qed

lemma runJob_loop_frame:
  assumes "control_frame (upsert j)"
  shows "migration_runs (st (snd (runJob_loop j c rid l rows))) = migration_runs (st l) \<and>
         runs_seq (st (snd (runJob_loop j c rid l rows))) = runs_seq (st l) \<and>
         migration_checkpoints (st (snd (runJob_loop j c rid l rows))) = migration_checkpoints (st l)"
proof (induction rows arbitrary: l)
  case Nil
  show ?case by simp
next
  case (Cons r rows)
  show ?case
  proof (cases "runJob_row j c rid l r")
    case (Pair res l')
    have f: "migration_runs (st l') = migration_runs (st l)" "runs_seq (st l') = runs_seq (st l)"
      "migration_checkpoints (st l') = migration_checkpoints (st l)"
      using runJob_row_frame [OF assms, of c rid l r] Pair by simp_all
    show ?thesis
      using Cons [of l'] f by (cases res) (simp_all add: Pair)
  qed
qed

lemma runJob_rows_frame:
  assumes "control_frame (upsert j)"
  shows "migration_runs (st (snd (runJob_rows j c rid s rows))) = migration_runs s"
    and "runs_seq (st (snd (runJob_rows j c rid s rows))) = runs_seq s"
    and "migration_checkpoints (st (snd (runJob_rows j c rid s rows))) = migration_checkpoints s"
  using runJob_loop_frame [OF assms, of c rid "\<lparr>st = s, lidos = 0, inseridos = 0\<rparr>" rows]
  by (simp_all add: runJob_rows_def)

lemma startRun_simps:
  "fst (startRun s n m) = Suc (runs_seq s)"
  "migration_runs (snd (startRun s n m)) = migration_runs s @
     [\<lparr>run_id = Suc (runs_seq s), job_name = n, run_mode = m, status = Running,
       error_message = None, transitions = 0\<rparr>]"
  "runs_seq (snd (startRun s n m)) = Suc (runs_seq s)"
  "migration_checkpoints (snd (startRun s n m)) = migration_checkpoints s"
  "migration_errors (snd (startRun s n m)) = migration_errors s"
  "migration_map (snd (startRun s n m)) = migration_map s"
  "dest (snd (startRun s n m)) = dest s"
  by (simp_all add: startRun_def Let_def)

lemma endRun_simps [simp]:
  "runs_seq (endRun s rid f e) = runs_seq s"
  "migration_checkpoints (endRun s rid f e) = migration_checkpoints s"
  "migration_errors (endRun s rid f e) = migration_errors s"
  "migration_map (endRun s rid f e) = migration_map s"
  "dest (endRun s rid f e) = dest s"
  by (simp_all add: endRun_def)

lemma older_runs_kept:
  "list_all (\<lambda>r. run_id r \<le> n) rs \<Longrightarrow>
   map (\<lambda>r. if run_id r = Suc n then f r else r) rs = rs"
  by (induction rs) auto

lemma endRun_started:
  assumes "runs_wf s"
    and "migration_runs s' = migration_runs s @
      [\<lparr>run_id = Suc (runs_seq s), job_name = n, run_mode = m, status = Running,
        error_message = None, transitions = 0\<rparr>]"
  shows "migration_runs (endRun s' (Suc (runs_seq s)) f e) = migration_runs s @
      [\<lparr>run_id = Suc (runs_seq s), job_name = n, run_mode = m, status = Terminal f,
        error_message = e, transitions = 1\<rparr>]"
  using assms by (simp add: endRun_def runs_wf_def older_runs_kept)

text \<open>
  The \<^verbatim>\<open>try\<close> block leaves the ledger as \<^verbatim>\<open>startRun\<close> left it when it ends by an
  exception, and with the one update of \<^verbatim>\<open>endRun\<close> when it completes.
\<close>

lemma runJob_try_Throw:
  assumes "control_frame (upsert j)" and "runJob_try j c rid s1 = (Throw m, s2)"
  shows "migration_runs s2 = migration_runs s1" and "runs_seq s2 = runs_seq s1"
    and "migration_checkpoints s2 = migration_checkpoints s1"
proof -
  have "migration_runs s2 = migration_runs s1 \<and> runs_seq s2 = runs_seq s1 \<and>
        migration_checkpoints s2 = migration_checkpoints s1"
  proof (cases "source c (extractSql j (mode c))")
    case (Throw x)
    with assms(2) show ?thesis by (simp add: runJob_try_def)
  next
    case (Ok rows)
    obtain res l where rl: "runJob_rows j c rid s1 rows = (res, l)"
      by (cases "runJob_rows j c rid s1 rows") auto
    have f: "migration_runs (st l) = migration_runs s1" "runs_seq (st l) = runs_seq s1"
      "migration_checkpoints (st l) = migration_checkpoints s1"
      using runJob_rows_frame [OF assms(1), of c rid s1 rows] rl by simp_all
    from assms(2) Ok rl have "s2 = st l"
      by (cases res) (simp_all add: runJob_try_def)
    with f show ?thesis by simp
  qed
  then show "migration_runs s2 = migration_runs s1" and "runs_seq s2 = runs_seq s1"
    and "migration_checkpoints s2 = migration_checkpoints s1"
    by simp_all
qed

lemma runJob_try_Ok:
  assumes "control_frame (upsert j)" and "runJob_try j c rid s1 = (Ok u, s2)"
  shows "\<exists>s'. s2 = endRun s' rid Success None \<and> migration_runs s' = migration_runs s1 \<and>
              runs_seq s' = runs_seq s1 \<and> migration_checkpoints s' = migration_checkpoints s1"
proof (cases "source c (extractSql j (mode c))")
  case (Throw x)
  with assms(2) show ?thesis by (simp add: runJob_try_def)
next
  case (Ok rows)
  obtain res l where rl: "runJob_rows j c rid s1 rows = (res, l)"
    by (cases "runJob_rows j c rid s1 rows") auto
  have f: "migration_runs (st l) = migration_runs s1" "runs_seq (st l) = runs_seq s1"
    "migration_checkpoints (st l) = migration_checkpoints s1"
    using runJob_rows_frame [OF assms(1), of c rid s1 rows] rl by simp_all
  from assms(2) Ok rl have "s2 = endRun (st l) rid Success None"
    by (cases res) (simp_all add: runJob_try_def)
  with f show ?thesis by blast
qed

lemma runJob_unfiltered:
  assumes "\<not> filtered_out c j"
  shows "runJob j c s =
    (case runJob_try j c (Suc (runs_seq s)) (snd (startRun s (key j) (mode c))) of
       (Ok u, s2) \<Rightarrow> s2
     | (Throw m, s2) \<Rightarrow> endRun s2 (Suc (runs_seq s)) Failed (Some m))"
  using assms by (simp add: runJob_def startRun_def Let_def)

lemma runJob_filtered: "filtered_out c j \<Longrightarrow> runJob j c s = s"
  by (simp add: runJob_def)

lemma runJob_runs:
  assumes "control_frame (upsert j)" and "runs_wf s" and "\<not> filtered_out c j"
  shows "migration_runs (runJob j c s) = migration_runs s @
      [\<lparr>run_id = Suc (runs_seq s), job_name = key j, run_mode = mode c,
        status = Terminal
          (case fst (runJob_try j c (Suc (runs_seq s)) (snd (startRun s (key j) (mode c)))) of
             Ok u \<Rightarrow> Success | Throw m \<Rightarrow> Failed),
        error_message =
          (case fst (runJob_try j c (Suc (runs_seq s)) (snd (startRun s (key j) (mode c)))) of
             Ok u \<Rightarrow> None | Throw m \<Rightarrow> Some m),
        transitions = 1\<rparr>]"
    and "runs_seq (runJob j c s) = Suc (runs_seq s)"
    and "migration_checkpoints (runJob j c s) = migration_checkpoints s"
proof -
  let ?s1 = "snd (startRun s (key j) (mode c))"
  let ?rid = "Suc (runs_seq s)"
  let ?row = "\<lparr>run_id = ?rid, job_name = key j, run_mode = mode c, status = Running,
        error_message = None, transitions = 0\<rparr>"
  obtain res s2 where t: "runJob_try j c ?rid ?s1 = (res, s2)"
    by (cases "runJob_try j c ?rid ?s1") auto
  have "migration_runs (runJob j c s) = migration_runs s @
      [\<lparr>run_id = ?rid, job_name = key j, run_mode = mode c,
        status = Terminal (case fst (runJob_try j c ?rid ?s1) of Ok u \<Rightarrow> Success | Throw m \<Rightarrow> Failed),
        error_message = (case fst (runJob_try j c ?rid ?s1) of Ok u \<Rightarrow> None | Throw m \<Rightarrow> Some m),
        transitions = 1\<rparr>] \<and>
      runs_seq (runJob j c s) = Suc (runs_seq s) \<and>
      migration_checkpoints (runJob j c s) = migration_checkpoints s"
  proof (cases res)
    case (Ok u)
    with t runJob_try_Ok [OF assms(1), of c ?rid ?s1 u s2] obtain s' where
      s': "s2 = endRun s' ?rid Success None" "migration_runs s' = migration_runs ?s1"
        "runs_seq s' = runs_seq ?s1" "migration_checkpoints s' = migration_checkpoints ?s1"
      by blast
    have "migration_runs s' = migration_runs s @ [?row]"
      by (simp add: s'(2) startRun_simps)
    from endRun_started [OF assms(2) this, of Success None] Ok t s' show ?thesis
      by (simp add: runJob_unfiltered [OF assms(3)] startRun_simps)
  next
    case (Throw m)
    with t have t': "runJob_try j c ?rid ?s1 = (Throw m, s2)" by simp
    have "migration_runs s2 = migration_runs s @ [?row]"
      by (simp add: runJob_try_Throw(1) [OF assms(1) t'] startRun_simps)
    from endRun_started [OF assms(2) this, of Failed "Some m"] t'
      runJob_try_Throw(2,3) [OF assms(1) t']
    show ?thesis
      by (simp add: runJob_unfiltered [OF assms(3)] startRun_simps)
  qed
  then show "migration_runs (runJob j c s) = migration_runs s @
      [\<lparr>run_id = Suc (runs_seq s), job_name = key j, run_mode = mode c,
        status = Terminal
          (case fst (runJob_try j c (Suc (runs_seq s)) (snd (startRun s (key j) (mode c)))) of
             Ok u \<Rightarrow> Success | Throw m \<Rightarrow> Failed),
        error_message =
          (case fst (runJob_try j c (Suc (runs_seq s)) (snd (startRun s (key j) (mode c)))) of
             Ok u \<Rightarrow> None | Throw m \<Rightarrow> Some m),
        transitions = 1\<rparr>]"
    and "runs_seq (runJob j c s) = Suc (runs_seq s)"
    and "migration_checkpoints (runJob j c s) = migration_checkpoints s"
    by simp_all
qed

lemma runJob_wf:
  assumes "control_frame (upsert j)" and "runs_wf s"
  shows "runs_wf (runJob j c s)"
proof (cases "filtered_out c j")
  case True
  with assms(2) show ?thesis by (simp add: runJob_filtered)
next
  case False
  have "list_all (\<lambda>r. run_id r \<le> Suc (runs_seq s)) (migration_runs s)"
    using assms(2) by (auto simp: runs_wf_def list_all_iff)
  then show ?thesis
    unfolding runs_wf_def runJob_runs(1,2) [OF assms False] by simp
qed

lemma newId_frame:
  "migration_runs (snd (newId s)) = migration_runs s"
  "runs_seq (snd (newId s)) = runs_seq s"
  "migration_errors (snd (newId s)) = migration_errors s"
  "migration_checkpoints (snd (newId s)) = migration_checkpoints s"
  "migration_map (snd (newId s)) = migration_map s"
  "dest (snd (newId s)) = dest s"
  by (simp_all add: newId_def)

lemma resolveId_frame:
  "migration_runs (snd (resolveId s e l)) = migration_runs s"
  "runs_seq (snd (resolveId s e l)) = runs_seq s"
  "migration_errors (snd (resolveId s e l)) = migration_errors s"
  "migration_checkpoints (snd (resolveId s e l)) = migration_checkpoints s"
  "migration_map (snd (resolveId s e l)) = migration_map s"
  "dest (snd (resolveId s e l)) = dest s"
  by (simp_all add: resolveId_def newId_frame split: option.splits)

lemma mapPut_frame:
  "migration_runs (snd (mapPut s e l n)) = migration_runs s"
  "runs_seq (snd (mapPut s e l n)) = runs_seq s"
  "migration_errors (snd (mapPut s e l n)) = migration_errors s"
  "migration_checkpoints (snd (mapPut s e l n)) = migration_checkpoints s"
  "dest (snd (mapPut s e l n)) = dest s"
  by (simp_all add: mapPut_def Let_def)


lemma mapPut_call_frame:
  "migration_runs (snd (mapPut_call s e l n)) = migration_runs s"
  "runs_seq (snd (mapPut_call s e l n)) = runs_seq s"
  "migration_errors (snd (mapPut_call s e l n)) = migration_errors s"
  "migration_checkpoints (snd (mapPut_call s e l n)) = migration_checkpoints s"
  "dest (snd (mapPut_call s e l n)) = dest s"
  by (simp_all add: mapPut_call_def mapPut_frame)

lemma resolveId_call_frame:
  "migration_runs (snd (resolveId_call s e l)) = migration_runs s"
  "runs_seq (snd (resolveId_call s e l)) = runs_seq s"
  "migration_errors (snd (resolveId_call s e l)) = migration_errors s"
  "migration_checkpoints (snd (resolveId_call s e l)) = migration_checkpoints s"
  "migration_map (snd (resolveId_call s e l)) = migration_map s"
  "dest (snd (resolveId_call s e l)) = dest s"
  using resolveId_frame [of s e l]
  by (auto simp: resolveId_call_def split: prod.splits)

lemma mapPutBoth_call_frame:
  "migration_runs (snd (mapPutBoth_call s e a b n)) = migration_runs s"
  "runs_seq (snd (mapPutBoth_call s e a b n)) = runs_seq s"
  "migration_errors (snd (mapPutBoth_call s e a b n)) = migration_errors s"
  "migration_checkpoints (snd (mapPutBoth_call s e a b n)) = migration_checkpoints s"
  "dest (snd (mapPutBoth_call s e a b n)) = dest s"
proof -
  obtain r1 s1 where p1: "(case normalizeLegacyId a of Some a' \<Rightarrow> mapPut_call s e (Str a') n | None \<Rightarrow> (Ok (), s)) = (r1, s1)"
    by (cases "(case normalizeLegacyId a of Some a' \<Rightarrow> mapPut_call s e (Str a') n | None \<Rightarrow> (Ok (), s))") auto
  have f1: "migration_runs s1 = migration_runs s \<and> runs_seq s1 = runs_seq s \<and>
            migration_errors s1 = migration_errors s \<and>
            migration_checkpoints s1 = migration_checkpoints s \<and> dest s1 = dest s"
  proof (cases "normalizeLegacyId a")
    case None
    with p1 show ?thesis by simp
  next
    case (Some a')
    with p1 have "s1 = snd (mapPut_call s e (Str a') n)" by simp
    then show ?thesis by (simp add: mapPut_call_frame)
  qed
  have f2: "migration_runs (snd (mapPutBoth_call s e a b n)) = migration_runs s1 \<and>
            runs_seq (snd (mapPutBoth_call s e a b n)) = runs_seq s1 \<and>
            migration_errors (snd (mapPutBoth_call s e a b n)) = migration_errors s1 \<and>
            migration_checkpoints (snd (mapPutBoth_call s e a b n)) = migration_checkpoints s1 \<and>
            dest (snd (mapPutBoth_call s e a b n)) = dest s1"
    using p1 by (cases r1) (simp_all add: mapPutBoth_call_def Let_def mapPut_call_frame split: option.splits)
  from f1 f2 show "migration_runs (snd (mapPutBoth_call s e a b n)) = migration_runs s"
    "runs_seq (snd (mapPutBoth_call s e a b n)) = runs_seq s"
    "migration_errors (snd (mapPutBoth_call s e a b n)) = migration_errors s"
    "migration_checkpoints (snd (mapPutBoth_call s e a b n)) = migration_checkpoints s"
    "dest (snd (mapPutBoth_call s e a b n)) = dest s"
    by simp_all
qed

text \<open>The state the company upsert leaves, branch by branch.\<close>

lemma company_upsert_state:
  "snd (company_upsert exec r c s) = snd (resolveId_call s ''company'' (field r ''co_seq_empresa'')) \<or>
   (\<exists>d i. snd (company_upsert exec r c s) =
      snd (mapPutBoth_call ((snd (resolveId_call s ''company'' (field r ''co_seq_empresa'')))\<lparr>dest := d\<rparr>)
             ''company'' (field r ''co_seq_empresa'') (field r ''id'') i))"
proof -
  obtain res s1 where rs: "resolveId_call s ''company'' (field r ''co_seq_empresa'') = (res, s1)"
    by (cases "resolveId_call s ''company'' (field r ''co_seq_empresa'')") auto
  show ?thesis
    unfolding company_upsert_def rs
    by (auto split: option.splits if_splits result.splits prod.splits) (metis snd_conv)+
qed

lemma company_upsert_skip:
  assumes "company_upsert exec r c s = (Ok False, s')"
  shows "dest s' = dest s" and "migration_map s' = migration_map s"
proof -
  obtain res s1 where rs: "resolveId_call s ''company'' (field r ''co_seq_empresa'') = (res, s1)"
    by (cases "resolveId_call s ''company'' (field r ''co_seq_empresa'')") auto
  have "s' = s1"
    using assms rs
    by (auto simp: company_upsert_def split: option.splits if_splits result.splits prod.splits)
  moreover have "dest s1 = dest s" "migration_map s1 = migration_map s"
    using resolveId_call_frame(5,6) [of s "''company''" "field r ''co_seq_empresa''"] rs by simp_all
  ultimately show "dest s' = dest s" and "migration_map s' = migration_map s" by simp_all
qed

lemma company_upsert_frame: "control_frame (company_upsert exec)"
  unfolding control_frame_def
proof (intro allI)
  fix r c and s :: "'a world"
  from company_upsert_state [of exec r c s]
  show "migration_runs (snd (company_upsert exec r c s)) = migration_runs s \<and>
        runs_seq (snd (company_upsert exec r c s)) = runs_seq s \<and>
        migration_errors (snd (company_upsert exec r c s)) = migration_errors s \<and>
        migration_checkpoints (snd (company_upsert exec r c s)) = migration_checkpoints s"
  proof
    assume "snd (company_upsert exec r c s) = snd (resolveId_call s ''company'' (field r ''co_seq_empresa''))"
    then show ?thesis by (simp add: resolveId_call_frame)
  next
    assume "\<exists>d i. snd (company_upsert exec r c s) =
      snd (mapPutBoth_call ((snd (resolveId_call s ''company'' (field r ''co_seq_empresa'')))\<lparr>dest := d\<rparr>)
             ''company'' (field r ''co_seq_empresa'') (field r ''id'') i)"
    then show ?thesis by (auto simp: mapPutBoth_call_frame resolveId_call_frame)
  qed
qed

lemma run_jobs_Cons: "run_jobs c s (j # js) = run_jobs c (runJob j c s) js"
  by (simp add: run_jobs_def)

lemma run_jobs_append: "run_jobs c s (xs @ ys) = run_jobs c (run_jobs c s xs) ys"
  by (simp add: run_jobs_def)

lemma runJob_ledger:
  assumes "control_frame (upsert j)" and "runs_wf s"
  shows "\<exists>new. migration_runs (runJob j c s) = migration_runs s @ new \<and>
               list_all (\<lambda>r. status r \<noteq> Running) new \<and>
               map job_name new = map key (filter (\<lambda>a. \<not> filtered_out c a) [j])"
proof (cases "filtered_out c j")
  case True
  then show ?thesis by (simp add: runJob_filtered)
next
  case False
  then show ?thesis
    by (simp add: runJob_runs(1) [OF assms False])
qed

lemma runJob_checkpoints:
  assumes "control_frame (upsert j)"
  shows "migration_checkpoints (runJob j c s) = migration_checkpoints s"
proof (cases "filtered_out c j")
  case True
  then show ?thesis by (simp add: runJob_filtered)
next
  case False
  let ?s1 = "snd (startRun s (key j) (mode c))"
  obtain res s2 where t: "runJob_try j c (Suc (runs_seq s)) ?s1 = (res, s2)"
    by (cases "runJob_try j c (Suc (runs_seq s)) ?s1") auto
  show ?thesis
  proof (cases res)
    case (Ok u)
    with t runJob_try_Ok [OF assms, of c "Suc (runs_seq s)" ?s1 u s2] show ?thesis
      by (auto simp: runJob_unfiltered [OF False] startRun_simps)
  next
    case (Throw m)
    with t runJob_try_Throw(3) [OF assms, of c "Suc (runs_seq s)" ?s1 m s2] show ?thesis
      by (simp add: runJob_unfiltered [OF False] startRun_simps)
  qed
qed

lemma run_jobs_ledger:
  assumes "\<forall>a\<in>set js. control_frame (upsert a)" and "runs_wf s"
  shows "\<exists>new. migration_runs (run_jobs c s js) = migration_runs s @ new \<and>
               list_all (\<lambda>r. status r \<noteq> Running) new \<and>
               map job_name new = map key (filter (\<lambda>a. \<not> filtered_out c a) js)"
    and "runs_wf (run_jobs c s js)"
    and "migration_checkpoints (run_jobs c s js) = migration_checkpoints s"
  using assms
proof (induction js arbitrary: s)
  case Nil
  {
    case 1 show ?case by (simp add: run_jobs_def)
  next
    case 2 then show ?case by (simp add: run_jobs_def)
  next
    case 3 show ?case by (simp add: run_jobs_def)
  }
next
  case (Cons j js)
  {
    case 1
    then have fj: "control_frame (upsert j)" and fjs: "\<forall>a\<in>set js. control_frame (upsert a)"
      by simp_all
    have wf: "runs_wf (runJob j c s)" using fj 1(2) by (rule runJob_wf)
    from runJob_ledger [OF fj 1(2), of c] obtain n1 where
      n1: "migration_runs (runJob j c s) = migration_runs s @ n1"
        "list_all (\<lambda>r. status r \<noteq> Running) n1"
        "map job_name n1 = map key (filter (\<lambda>a. \<not> filtered_out c a) [j])"
      by blast
    from Cons.IH(1) [OF fjs wf] obtain n2 where
      n2: "migration_runs (run_jobs c (runJob j c s) js) = migration_runs (runJob j c s) @ n2"
        "list_all (\<lambda>r. status r \<noteq> Running) n2"
        "map job_name n2 = map key (filter (\<lambda>a. \<not> filtered_out c a) js)"
      by blast
    have "migration_runs (run_jobs c s (j # js)) = migration_runs s @ (n1 @ n2)"
      using n1(1) n2(1) by (simp add: run_jobs_Cons)
    moreover have "list_all (\<lambda>r. status r \<noteq> Running) (n1 @ n2)"
      using n1(2) n2(2) by simp
    moreover have "map job_name (n1 @ n2) = map key (filter (\<lambda>a. \<not> filtered_out c a) (j # js))"
      using n1(3) n2(3) by simp
    ultimately show ?case by blast
  next
    case 2
    then have fj: "control_frame (upsert j)" and fjs: "\<forall>a\<in>set js. control_frame (upsert a)"
      by simp_all
    have wf: "runs_wf (runJob j c s)" using fj 2(2) by (rule runJob_wf)
    from Cons.IH(2) [OF fjs wf] show ?case by (simp add: run_jobs_Cons)
  next
    case 3
    then have fj: "control_frame (upsert j)" and fjs: "\<forall>a\<in>set js. control_frame (upsert a)"
      by simp_all
    have wf: "runs_wf (runJob j c s)" using fj 3(2) by (rule runJob_wf)
    from Cons.IH(3) [OF fjs wf] runJob_checkpoints [OF fj, of c s]
    show ?case by (simp add: run_jobs_Cons)
  }
qed

lemma run_jobs_ledger_drop:
  assumes "\<forall>a\<in>set js. control_frame (upsert a)" and "runs_wf s"
  shows "take (length (migration_runs s)) (migration_runs (run_jobs c s js)) = migration_runs s"
    and "list_all (\<lambda>r. status r \<noteq> Running)
           (drop (length (migration_runs s)) (migration_runs (run_jobs c s js)))"
    and "map job_name (drop (length (migration_runs s)) (migration_runs (run_jobs c s js))) =
           map key (filter (\<lambda>a. \<not> filtered_out c a) js)"
proof -
  from run_jobs_ledger(1) [OF assms, of c] obtain new where
    n: "migration_runs (run_jobs c s js) = migration_runs s @ new"
      "list_all (\<lambda>r. status r \<noteq> Running) new"
      "map job_name new = map key (filter (\<lambda>a. \<not> filtered_out c a) js)"
    by blast
  show "take (length (migration_runs s)) (migration_runs (run_jobs c s js)) = migration_runs s"
    by (simp add: n(1))
  show "list_all (\<lambda>r. status r \<noteq> Running)
           (drop (length (migration_runs s)) (migration_runs (run_jobs c s js)))"
    by (simp add: n(1,2))
  show "map job_name (drop (length (migration_runs s)) (migration_runs (run_jobs c s js))) =
           map key (filter (\<lambda>a. \<not> filtered_out c a) js)"
    by (simp add: n(1,3))
qed

lemma sorted_split:
  assumes "sort_key f xs = pre @ x # post"
  shows "\<forall>a\<in>set pre. f a \<le> f x" and "\<forall>b\<in>set post. f x \<le> f b"
    and "\<forall>a\<in>set xs. f a < f x \<longrightarrow> a \<in> set pre"
proof -
  have srt: "sorted (map f (pre @ x # post))"
    using sorted_sort_key [of f xs] assms by simp
  show 1: "\<forall>a\<in>set pre. f a \<le> f x"
    using srt by (auto simp: sorted_append)
  show 2: "\<forall>b\<in>set post. f x \<le> f b"
    using srt by (auto simp: sorted_append)
  have "set xs = set (pre @ x # post)"
    using set_sort [of f xs] assms by simp
  with 2 show "\<forall>a\<in>set xs. f a < f x \<longrightarrow> a \<in> set pre"
    by auto
qed

text \<open>
  Claim C3. \<^verbatim>\<open>main\<close> runs the jobs one after the other in the order of the stable
  sort by \<^verbatim>\<open>level\<close>. Take any job \<open>j\<close> of the sorted registry, \<open>pre\<close> the jobs before
  it and \<open>post\<close> the jobs after it. Then \<open>j\<close> starts in the state that running all of
  \<open>pre\<close> has left; every job of a lower tier is in \<open>pre\<close>, and no job of \<open>post\<close> has a
  lower tier than \<open>j\<close>; and in the state in which \<open>j\<close> starts, the ledger holds, after
  the rows it had at the beginning, one row for each job of \<open>pre\<close> that the filter lets
  through, in that order, and none of them is still running. So no job starts before
  every job of a lower tier has finished.
\<close>

theorem tier_order:
  assumes "\<forall>a\<in>set jobs. control_frame (upsert a)" and "runs_wf s"
    and "sort_key level jobs = pre @ j # post"
  shows "main jobs c s = run_jobs c (runJob j c (run_jobs c s pre)) post \<and>
         (\<forall>a\<in>set jobs. level a < level j \<longrightarrow> a \<in> set pre) \<and>
         (\<forall>a\<in>set pre. level a \<le> level j) \<and>
         (\<forall>b\<in>set post. level j \<le> level b) \<and>
         take (length (migration_runs s)) (migration_runs (run_jobs c s pre)) = migration_runs s \<and>
         map job_name (drop (length (migration_runs s)) (migration_runs (run_jobs c s pre))) =
           map key (filter (\<lambda>a. \<not> filtered_out c a) pre) \<and>
         list_all (\<lambda>r. status r \<noteq> Running)
           (drop (length (migration_runs s)) (migration_runs (run_jobs c s pre)))"
proof -
  have "set jobs = set (pre @ j # post)"
    using set_sort [of level jobs] assms(3) by simp
  then have fpre: "\<forall>a\<in>set pre. control_frame (upsert a)"
    using assms(1) by auto
  have m: "main jobs c s = run_jobs c (runJob j c (run_jobs c s pre)) post"
    by (simp add: main_def assms(3) run_jobs_append run_jobs_Cons)
  from m sorted_split [OF assms(3)] run_jobs_ledger_drop [OF fpre assms(2), of c]
  show ?thesis by blast
qed

lemma tier_job_simps:
  "level (tier_job k lv q) = lv" "key (tier_job k lv q) = k"
  "upsert (tier_job k lv q) = company_upsert log_exec"
  "extractSql (tier_job k lv q) m = q"
  by (simp_all add: tier_job_def company_def)

lemma demo_not_filtered: "\<not> filtered_out demo_ctx a"
  by (simp add: filtered_out_def demo_ctx_def)

lemma demo_world_wf: "runs_wf demo_world"
  by (simp add: runs_wf_def demo_world_def empty_world_def)

lemma demo_registry_frames: "\<forall>a\<in>set demo_registry. control_frame (upsert a)"
  by (simp add: demo_registry_def tier_job_simps company_upsert_frame)

text \<open>
  A registry declared with the tiers 2, 1, 3, 1 runs as \<open>a\<close>, \<open>b\<close> (tier 1), \<open>c\<close>
  (tier 2), \<open>d\<close> (tier 3); when \<open>c\<close> starts, the ledger holds the finished runs of
  \<open>a\<close> and \<open>b\<close>.
\<close>

theorem tier_order_witness:
  "list_all (\<lambda>a. control_frame (upsert a)) demo_registry \<and> runs_wf demo_world \<and>
   sort_key level demo_registry =
     [tier_job ''a'' 1 ''select * from tb_empresa'', tier_job ''b'' 1 ''select * from tb_empresa''] @
     tier_job ''c'' 2 ''select * from tb_empresa'' # [tier_job ''d'' 3 ''select * from tb_termo''] \<and>
   tier_job ''b'' 1 ''select * from tb_empresa'' \<in> set demo_registry \<and>
   level (tier_job ''b'' 1 ''select * from tb_empresa'') <
     level (tier_job ''c'' 2 ''select * from tb_empresa'') \<and>
   tier_job ''b'' 1 ''select * from tb_empresa'' \<in>
     set [tier_job ''a'' 1 ''select * from tb_empresa'', tier_job ''b'' 1 ''select * from tb_empresa''] \<and>
   main demo_registry demo_ctx demo_world =
     run_jobs demo_ctx
       (runJob (tier_job ''c'' 2 ''select * from tb_empresa'') demo_ctx
          (run_jobs demo_ctx demo_world
             [tier_job ''a'' 1 ''select * from tb_empresa'', tier_job ''b'' 1 ''select * from tb_empresa'']))
       [tier_job ''d'' 3 ''select * from tb_termo''] \<and>
   map job_name (drop (length (migration_runs demo_world))
     (migration_runs (run_jobs demo_ctx demo_world
        [tier_job ''a'' 1 ''select * from tb_empresa'', tier_job ''b'' 1 ''select * from tb_empresa''])))
     = [''a'', ''b''] \<and>
   list_all (\<lambda>r. status r \<noteq> Running) (drop (length (migration_runs demo_world))
     (migration_runs (run_jobs demo_ctx demo_world
        [tier_job ''a'' 1 ''select * from tb_empresa'', tier_job ''b'' 1 ''select * from tb_empresa''])))"
proof -
  have h3: "sort_key level demo_registry =
     [tier_job ''a'' 1 ''select * from tb_empresa'', tier_job ''b'' 1 ''select * from tb_empresa''] @
     tier_job ''c'' 2 ''select * from tb_empresa'' # [tier_job ''d'' 3 ''select * from tb_termo'']"
    by (simp add: demo_registry_def tier_job_simps)
  show ?thesis
    using tier_order [OF demo_registry_frames demo_world_wf h3, of demo_ctx]
      demo_registry_frames demo_world_wf h3
    by (simp add: tier_job_simps demo_not_filtered list_all_iff) (simp add: demo_registry_def)
qed

lemma run_jobs_checkpoints:
  "\<forall>a\<in>set js. control_frame (upsert a) \<Longrightarrow>
   migration_checkpoints (run_jobs c s js) = migration_checkpoints s"
  by (induction js arbitrary: s) (simp_all add: run_jobs_def runJob_checkpoints)

text \<open>
  Claim C7, amended. The orchestration layer writes no checkpoint: \<^verbatim>\<open>runJob\<close> and
  \<^verbatim>\<open>main\<close> leave \<^verbatim>\<open>migration_checkpoints\<close> exactly as they found it, for every
  registry whose upserts leave the control tables alone. The table is created by
  \<^verbatim>\<open>control_tables.sql\<close> and never read or written by the engine.
\<close>

theorem no_checkpoint_written:
  assumes "\<forall>a\<in>set jobs. control_frame (upsert a)"
  shows "migration_checkpoints (main jobs c s) = migration_checkpoints s \<and>
         (\<forall>j\<in>set jobs. migration_checkpoints (runJob j c s) = migration_checkpoints s)"
proof -
  have "\<forall>a\<in>set (sort_key level jobs). control_frame (upsert a)"
    using assms by simp
  then have "migration_checkpoints (main jobs c s) = migration_checkpoints s"
    unfolding main_def by (rule run_jobs_checkpoints)
  moreover have "\<forall>j\<in>set jobs. migration_checkpoints (runJob j c s) = migration_checkpoints s"
    using assms by (simp add: runJob_checkpoints)
  ultimately show ?thesis by simp
qed

text \<open>
  The demo registry on a store with no checkpoint: none after the whole run.
\<close>

theorem no_checkpoint_written_witness:
  "list_all (\<lambda>a. control_frame (upsert a)) demo_registry \<and>
   migration_checkpoints (main demo_registry demo_ctx demo_world) = migration_checkpoints demo_world \<and>
   migration_checkpoints (runJob (tier_job ''a'' 1 ''select * from tb_empresa'') demo_ctx demo_world)
     = migration_checkpoints demo_world \<and>
   migration_checkpoints demo_world = []"
proof -
  have m: "tier_job ''a'' 1 ''select * from tb_empresa'' \<in> set demo_registry"
    by (simp add: demo_registry_def)
  have e: "migration_checkpoints demo_world = []"
    by (simp add: demo_world_def empty_world_def)
  show ?thesis
    using no_checkpoint_written [OF demo_registry_frames, of demo_ctx demo_world]
      demo_registry_frames m e
    by (simp add: list_all_iff)
qed

lemma company_simps:
  "key (company exec) = ''company''" "level (company exec) = 2" "pk (company exec) = ''co_seq_empresa''"
  "upsert (company exec) = company_upsert exec"
  "extractSql (company exec) m = ''select * from tb_empresa''"
  by (simp_all add: company_def)

lemma demo_ctx_simps:
  "mode demo_ctx = Full"
  "source demo_ctx ''select * from tb_empresa'' = Ok [row_both_keys, row_no_user, row_plain]"
  "source demo_ctx ''select * from tb_termo'' = Throw ''Table does not exist''"
  by (simp_all add: demo_ctx_def)

lemma demo_world_simps:
  "migration_runs demo_world = []" "runs_seq demo_world = 0" "migration_errors demo_world = []"
  "migration_checkpoints demo_world = []"
  by (simp_all add: demo_world_def empty_world_def)

lemma demo_job_completes:
  "fst (runJob_try (company log_exec) demo_ctx (Suc 0)
     (snd (startRun demo_world ''company'' Full))) = Ok ()"
  by code_simp

text \<open>
  Claim C7 as the specification words it (a checkpoint for the job is written after
  processing) does not hold: the company job runs to \<^verbatim>\<open>success\<close> over its three
  rows and \<^verbatim>\<open>migration_checkpoints\<close> is still empty.
\<close>

theorem checkpoint_missing_counterexample:
  "map job_name (migration_runs (runJob (company log_exec) demo_ctx demo_world)) = [''company''] \<and>
   map status (migration_runs (runJob (company log_exec) demo_ctx demo_world)) = [Terminal Success] \<and>
   migration_checkpoints (runJob (company log_exec) demo_ctx demo_world) = []"
proof -
  have f: "control_frame (upsert (company log_exec))"
    by (simp add: company_simps company_upsert_frame)
  show ?thesis
    using runJob_runs(1) [OF f demo_world_wf demo_not_filtered]
      runJob_checkpoints [OF f, of demo_ctx demo_world]
    by (simp add: demo_job_completes company_simps demo_ctx_simps demo_world_simps)
qed


lemma runJob_try_fst:
  "fst (runJob_try j c rid s1) =
     (case source c (extractSql j (mode c)) of
        Throw m \<Rightarrow> Throw m
      | Ok rows \<Rightarrow> fst (runJob_rows j c rid s1 rows))"
  by (auto simp: runJob_try_def split: result.splits prod.splits)

text \<open>
  Claim C8. For a job that the filter lets through, on a ledger whose ids come from
  the sequence: \<^verbatim>\<open>startRun\<close> appends one row with a fresh id in state
  \<^verbatim>\<open>running\<close>, not yet updated; the row loop, however many rows it takes and
  however it ends, leaves the ledger as \<^verbatim>\<open>startRun\<close> left it; at the end of
  \<^verbatim>\<open>runJob\<close> the ledger is the old one plus that one row, updated exactly once:
  \<^verbatim>\<open>success\<close> when the extraction returned rows and the row loop completed,
  \<^verbatim>\<open>failed\<close> with the message when the extraction threw or an exception left the
  row loop, every older row untouched; and whatever jobs run afterwards, the rows of the
  ledger at that point stay as they are, update count included. So the row changes
  state once and never again.
\<close>

theorem run_transitions_once:
  assumes "control_frame (upsert j)" and "runs_wf s" and "\<not> filtered_out c j"
  shows "migration_runs (snd (startRun s (key j) (mode c))) = migration_runs s @
           [\<lparr>run_id = Suc (runs_seq s), job_name = key j, run_mode = mode c, status = Running,
             error_message = None, transitions = 0\<rparr>] \<and>
         (\<forall>rows. migration_runs
             (st (snd (runJob_rows j c (Suc (runs_seq s)) (snd (startRun s (key j) (mode c))) rows))) =
           migration_runs (snd (startRun s (key j) (mode c)))) \<and>
         migration_runs (runJob j c s) = migration_runs s @
           [\<lparr>run_id = Suc (runs_seq s), job_name = key j, run_mode = mode c,
             status = Terminal
               (case source c (extractSql j (mode c)) of
                  Throw m \<Rightarrow> Failed
                | Ok rows \<Rightarrow>
                    (case fst (runJob_rows j c (Suc (runs_seq s))
                                 (snd (startRun s (key j) (mode c))) rows) of
                       Ok u \<Rightarrow> Success | Throw m \<Rightarrow> Failed)),
             error_message =
               (case source c (extractSql j (mode c)) of
                  Throw m \<Rightarrow> Some m
                | Ok rows \<Rightarrow>
                    (case fst (runJob_rows j c (Suc (runs_seq s))
                                 (snd (startRun s (key j) (mode c))) rows) of
                       Ok u \<Rightarrow> None | Throw m \<Rightarrow> Some m)),
             transitions = 1\<rparr>] \<and>
         ((\<forall>a\<in>set js. control_frame (upsert a)) \<longrightarrow>
            take (length (migration_runs (runJob j c s)))
              (migration_runs (run_jobs c (runJob j c s) js)) = migration_runs (runJob j c s))"
proof -
  have a: "migration_runs (snd (startRun s (key j) (mode c))) = migration_runs s @
           [\<lparr>run_id = Suc (runs_seq s), job_name = key j, run_mode = mode c, status = Running,
             error_message = None, transitions = 0\<rparr>]"
    by (simp add: startRun_simps)
  have b: "\<forall>rows. migration_runs
             (st (snd (runJob_rows j c (Suc (runs_seq s)) (snd (startRun s (key j) (mode c))) rows))) =
           migration_runs (snd (startRun s (key j) (mode c)))"
    by (simp add: runJob_rows_frame(1) [OF assms(1)])
  have c: "migration_runs (runJob j c s) = migration_runs s @
           [\<lparr>run_id = Suc (runs_seq s), job_name = key j, run_mode = mode c,
             status = Terminal
               (case source c (extractSql j (mode c)) of
                  Throw m \<Rightarrow> Failed
                | Ok rows \<Rightarrow>
                    (case fst (runJob_rows j c (Suc (runs_seq s))
                                 (snd (startRun s (key j) (mode c))) rows) of
                       Ok u \<Rightarrow> Success | Throw m \<Rightarrow> Failed)),
             error_message =
               (case source c (extractSql j (mode c)) of
                  Throw m \<Rightarrow> Some m
                | Ok rows \<Rightarrow>
                    (case fst (runJob_rows j c (Suc (runs_seq s))
                                 (snd (startRun s (key j) (mode c))) rows) of
                       Ok u \<Rightarrow> None | Throw m \<Rightarrow> Some m)),
             transitions = 1\<rparr>]"
    unfolding runJob_runs(1) [OF assms] runJob_try_fst
    by (simp split: result.splits)
  have wf: "runs_wf (runJob j c s)"
    using assms(1,2) by (rule runJob_wf)
  have d: "(\<forall>a\<in>set js. control_frame (upsert a)) \<longrightarrow>
            take (length (migration_runs (runJob j c s)))
              (migration_runs (run_jobs c (runJob j c s) js)) = migration_runs (runJob j c s)"
    using run_jobs_ledger_drop(1) [OF _ wf] by blast
  from a b c d show ?thesis by blast
qed

lemma demo_loops:
  "fst (runJob_rows (company log_exec) demo_ctx (Suc 0)
     (snd (startRun demo_world ''company'' Full)) [row_both_keys, row_no_user, row_plain]) = Ok ()"
  "fst (runJob_rows (company log_exec) nul_name_ctx (Suc 0)
     (snd (startRun demo_world ''company'' Full)) [row_nul_name, row_plain]) = Throw bad_escape"
  by code_simp+

lemma nul_ctx_simps:
  "mode nul_name_ctx = Full" "tableFilter nul_name_ctx = None"
  "source nul_name_ctx ''select * from tb_empresa'' = Ok [row_nul_name, row_plain]"
  "mode nul_user_ctx = Full" "tableFilter nul_user_ctx = None"
  "source nul_user_ctx ''select * from tb_empresa'' = Ok [row_nul_user, row_plain]"
  by (simp_all add: nul_name_ctx_def nul_user_ctx_def demo_ctx_def)

lemma nul_not_filtered: "\<not> filtered_out nul_name_ctx a" "\<not> filtered_out nul_user_ctx a"
  by (simp_all add: filtered_out_def nul_ctx_simps)

text \<open>
  The company job on the demo store ends \<^verbatim>\<open>success\<close>; the job on the missing
  table ends \<^verbatim>\<open>failed\<close> with the message of the extraction; the company job whose
  first row holds NUL ends \<^verbatim>\<open>failed\<close> with the message of the refused insert; each
  row has been updated once, and the whole registry run afterwards leaves the first row
  as it is.
\<close>

theorem run_transitions_once_witness:
  "control_frame (upsert (company log_exec)) \<and> runs_wf demo_world \<and>
   \<not> filtered_out demo_ctx (company log_exec) \<and>
   \<not> filtered_out nul_name_ctx (company log_exec) \<and>
   list_all (\<lambda>a. control_frame (upsert a)) demo_registry \<and>
   migration_runs (snd (startRun demo_world ''company'' Full)) =
     [\<lparr>run_id = 1, job_name = ''company'', run_mode = Full, status = Running,
       error_message = None, transitions = 0\<rparr>] \<and>
   migration_runs (st (snd (runJob_rows (company log_exec) demo_ctx 1
       (snd (startRun demo_world ''company'' Full)) [row_both_keys, row_no_user]))) =
     [\<lparr>run_id = 1, job_name = ''company'', run_mode = Full, status = Running,
       error_message = None, transitions = 0\<rparr>] \<and>
   migration_runs (runJob (company log_exec) demo_ctx demo_world) =
     [\<lparr>run_id = 1, job_name = ''company'', run_mode = Full, status = Terminal Success,
       error_message = None, transitions = 1\<rparr>] \<and>
   migration_runs (runJob (tier_job ''d'' 3 ''select * from tb_termo'') demo_ctx demo_world) =
     [\<lparr>run_id = 1, job_name = ''d'', run_mode = Full, status = Terminal Failed,
       error_message = Some ''Table does not exist'', transitions = 1\<rparr>] \<and>
   migration_runs (runJob (company log_exec) nul_name_ctx demo_world) =
     [\<lparr>run_id = 1, job_name = ''company'', run_mode = Full, status = Terminal Failed,
       error_message = Some bad_escape, transitions = 1\<rparr>] \<and>
   take 1 (migration_runs (run_jobs demo_ctx (runJob (company log_exec) demo_ctx demo_world)
       demo_registry)) =
     [\<lparr>run_id = 1, job_name = ''company'', run_mode = Full, status = Terminal Success,
       error_message = None, transitions = 1\<rparr>]"
proof -
  have f: "control_frame (upsert (company log_exec))"
    by (simp add: company_simps company_upsert_frame)
  have g: "control_frame (upsert (tier_job ''d'' 3 ''select * from tb_termo''))"
    by (simp add: tier_job_simps company_upsert_frame)
  have la: "list_all (\<lambda>a. control_frame (upsert a)) demo_registry"
    using demo_registry_frames by (simp add: list_all_iff)
  note c = run_transitions_once [OF f demo_world_wf demo_not_filtered, of demo_registry]
  note n = run_transitions_once [OF f demo_world_wf nul_not_filtered(1), of "[]"]
  note d = run_transitions_once [OF g demo_world_wf demo_not_filtered, of "[]"]
  have w1: "migration_runs (snd (startRun demo_world ''company'' Full)) =
     [\<lparr>run_id = 1, job_name = ''company'', run_mode = Full, status = Running,
       error_message = None, transitions = 0\<rparr>]"
    using c [THEN conjunct1] by (simp add: company_simps demo_ctx_simps demo_world_simps)
  have w2: "migration_runs (st (snd (runJob_rows (company log_exec) demo_ctx 1
       (snd (startRun demo_world ''company'' Full)) [row_both_keys, row_no_user]))) =
     [\<lparr>run_id = 1, job_name = ''company'', run_mode = Full, status = Running,
       error_message = None, transitions = 0\<rparr>]"
    using c [THEN conjunct2, THEN conjunct1] w1
    by (simp add: company_simps demo_ctx_simps demo_world_simps)
  have r: "migration_runs (runJob (company log_exec) demo_ctx demo_world) =
     [\<lparr>run_id = 1, job_name = ''company'', run_mode = Full, status = Terminal Success,
       error_message = None, transitions = 1\<rparr>]"
    using c [THEN conjunct2, THEN conjunct2, THEN conjunct1]
    by (simp add: company_simps demo_ctx_simps demo_world_simps demo_loops)
  have w4: "migration_runs (runJob (tier_job ''d'' 3 ''select * from tb_termo'') demo_ctx demo_world) =
     [\<lparr>run_id = 1, job_name = ''d'', run_mode = Full, status = Terminal Failed,
       error_message = Some ''Table does not exist'', transitions = 1\<rparr>]"
    using d [THEN conjunct2, THEN conjunct2, THEN conjunct1]
    by (simp add: tier_job_simps demo_ctx_simps demo_world_simps)
  have w5: "migration_runs (runJob (company log_exec) nul_name_ctx demo_world) =
     [\<lparr>run_id = 1, job_name = ''company'', run_mode = Full, status = Terminal Failed,
       error_message = Some bad_escape, transitions = 1\<rparr>]"
    using n [THEN conjunct2, THEN conjunct2, THEN conjunct1]
    by (simp add: company_simps nul_ctx_simps demo_world_simps demo_loops)
  have t: "take (length (migration_runs (runJob (company log_exec) demo_ctx demo_world)))
       (migration_runs (run_jobs demo_ctx (runJob (company log_exec) demo_ctx demo_world)
          demo_registry)) = migration_runs (runJob (company log_exec) demo_ctx demo_world)"
    using c demo_registry_frames by blast
  have w6: "take 1 (migration_runs (run_jobs demo_ctx (runJob (company log_exec) demo_ctx demo_world)
       demo_registry)) =
     [\<lparr>run_id = 1, job_name = ''company'', run_mode = Full, status = Terminal Success,
       error_message = None, transitions = 1\<rparr>]"
    using t unfolding r by simp
  from f demo_world_wf demo_not_filtered [of "company log_exec"]
    nul_not_filtered(1) [of "company log_exec"] la w1 w2 r w4 w5 w6
  show ?thesis by blast
qed


subsection \<open>Rows that fail\<close>

lemma skipped_message_clean: "\<not> has_nul skipped_message"
  by (simp add: has_nul_def skipped_message_def)

lemma error_entry_refused:
  "error_refused (error_entry j rid r sg m) \<longleftrightarrow>
     has_nul (pk_text r (pk j)) \<or> has_nul m \<or> row_has_nul r"
  by (simp add: error_refused_def error_entry_def)

text \<open>
  A row whose upsert throws, when the insert into \<^verbatim>\<open>migration_errors\<close> is accepted:
  one entry of stage \<^verbatim>\<open>load\<close> with the message and the row, the row is counted as
  read and not as inserted, and no exception leaves the row.
\<close>

lemma upsert_throw_recorded:
  assumes "control_frame (upsert j)" and "upsert j r c (st l) = (Throw m, s')"
    and "\<not> error_refused (error_entry j rid r Load m)"
  shows "runJob_row j c rid l r =
           (Ok (), \<lparr>st = s'\<lparr>migration_errors := migration_errors (st l) @
                                 [\<lparr>err_run_id = rid, err_job_name = key j,
                                   err_legacy_id = pk_text r (pk j), err_stage = Load,
                                   err_message = m, payload = r\<rparr>]\<rparr>,
                    lidos = Suc (lidos l), inseridos = inseridos l\<rparr>)"
proof -
  note i = insertError_accepted [OF assms(3), of s']
  have "runJob_row j c rid l r =
          (Ok (), \<lparr>st = s'\<lparr>migration_errors := migration_errors s' @
                                [error_entry j rid r Load m]\<rparr>,
                   lidos = Suc (lidos l), inseridos = inseridos l\<rparr>)"
    by (simp add: runJob_row_Throw [OF assms(2)] runJob_row_catch_def i)
  then show ?thesis
    using control_frameD(3) [OF assms(1,2)] by (simp add: error_entry_def)
qed

text \<open>
  The same row when that insert is refused: nothing is logged and the exception of the
  insert leaves the row.
\<close>

lemma upsert_throw_escapes:
  assumes "upsert j r c (st l) = (Throw m, s')"
    and "error_refused (error_entry j rid r Load m)"
  shows "\<exists>m'. runJob_row j c rid l r =
           (Throw m', \<lparr>st = s', lidos = lidos l, inseridos = inseridos l\<rparr>)"
proof -
  obtain m1 where i: "insertError s' (error_entry j rid r Load m) = (Throw m1, s')"
    using insertError_refused [OF assms(2), of s'] by blast
  show ?thesis
    by (simp add: runJob_row_Throw [OF assms(1)] runJob_row_catch_def i)
qed

text \<open>
  A row whose upsert returns \<^verbatim>\<open>false\<close>, when the insert is accepted: one entry of
  stage \<^verbatim>\<open>validate\<close>, the row is counted as read and not as inserted, and the
  orchestrator leaves the rest of the store as the upsert left it.
\<close>

lemma upsert_false_recorded:
  assumes "control_frame (upsert j)" and "upsert j r c (st l) = (Ok False, s')"
    and "\<not> has_nul (pk_text r (pk j))" and "\<not> row_has_nul r"
  shows "runJob_row j c rid l r =
           (Ok (), \<lparr>st = s'\<lparr>migration_errors := migration_errors (st l) @
                                 [\<lparr>err_run_id = rid, err_job_name = key j,
                                   err_legacy_id = pk_text r (pk j), err_stage = Validate,
                                   err_message = skipped_message, payload = r\<rparr>]\<rparr>,
                    lidos = Suc (lidos l), inseridos = inseridos l\<rparr>)"
proof -
  have "\<not> error_refused (error_entry j rid r Validate skipped_message)"
    using assms(3,4) by (simp add: error_entry_refused skipped_message_clean)
  note i = insertError_accepted [OF this, of s']
  have "runJob_row j c rid l r =
          (Ok (), \<lparr>st = s'\<lparr>migration_errors := migration_errors s' @
                                [error_entry j rid r Validate skipped_message]\<rparr>,
                   lidos = Suc (lidos l), inseridos = inseridos l\<rparr>)"
    by (simp add: runJob_row_False [OF assms(2)] i)
  then show ?thesis
    using control_frameD(3) [OF assms(1,2)] by (simp add: error_entry_def)
qed

text \<open>
  The same row when the legacy id or the payload holds NUL: the insert at stage
  \<^verbatim>\<open>validate\<close> is refused, the \<^verbatim>\<open>catch\<close> tries the insert at stage
  \<^verbatim>\<open>load\<close> with the same legacy id and payload, which is refused as well, and the
  exception leaves the row with nothing logged.
\<close>

lemma upsert_false_escapes:
  assumes "upsert j r c (st l) = (Ok False, s')"
    and "has_nul (pk_text r (pk j)) \<or> row_has_nul r"
  shows "\<exists>m'. runJob_row j c rid l r =
           (Throw m', \<lparr>st = s', lidos = lidos l, inseridos = inseridos l\<rparr>)"
proof -
  have v: "error_refused (error_entry j rid r Validate skipped_message)"
    using assms(2) by (auto simp: error_entry_refused)
  have w: "error_refused (error_entry j rid r Load m)" for m
    using assms(2) by (auto simp: error_entry_refused)
  obtain m1 where i1: "insertError s' (error_entry j rid r Validate skipped_message) = (Throw m1, s')"
    using insertError_refused [OF v, of s'] by blast
  obtain m2 where i2: "insertError s' (error_entry j rid r Load m1) = (Throw m2, s')"
    using insertError_refused [OF w [of m1], of s'] by blast
  show ?thesis
    by (simp add: runJob_row_False [OF assms(1)] runJob_row_catch_def i1 i2)
qed

text \<open>
  An exception that leaves a row ends the loop: the rows after it are not processed,
  and the job is closed as \<^verbatim>\<open>failed\<close> with the message of that exception.
\<close>

lemma runJob_loop_append:
  "runJob_loop j c rid l (pre @ rs) =
     (case runJob_loop j c rid l pre of
        (Ok u, l') \<Rightarrow> runJob_loop j c rid l' rs
      | (Throw m, l') \<Rightarrow> (Throw m, l'))"
proof (induction pre arbitrary: l)
  case Nil
  show ?case by simp
next
  case (Cons r pre)
  show ?case
    by (cases "runJob_row j c rid l r") (auto simp: Cons split: result.splits)
qed

lemma escaping_row_ends_loop:
  assumes "runJob_rows j c rid s1 pre = (Ok (), l)"
    and "runJob_row j c rid l r = (Throw m, l')"
  shows "runJob_rows j c rid s1 (pre @ r # post) = (Throw m, l')"
  using assms by (simp add: runJob_rows_def runJob_loop_append)

lemma escaping_row_fails_run:
  assumes "control_frame (upsert j)" and "runs_wf s" and "\<not> filtered_out c j"
    and "source c (extractSql j (mode c)) = Ok (pre @ r # post)"
    and "runJob_rows j c (Suc (runs_seq s)) (snd (startRun s (key j) (mode c))) pre = (Ok (), l)"
    and "runJob_row j c (Suc (runs_seq s)) l r = (Throw m, l')"
  shows "migration_runs (runJob j c s) = migration_runs s @
           [\<lparr>run_id = Suc (runs_seq s), job_name = key j, run_mode = mode c,
             status = Terminal Failed, error_message = Some m, transitions = 1\<rparr>]"
    and "migration_errors (runJob j c s) = migration_errors (st l')"
    and "dest (runJob j c s) = dest (st l')"
proof -
  note e = escaping_row_ends_loop [OF assms(5,6), of post]
  have t: "runJob_try j c (Suc (runs_seq s)) (snd (startRun s (key j) (mode c))) = (Throw m, st l')"
    by (simp add: runJob_try_def assms(4) e)
  show "migration_runs (runJob j c s) = migration_runs s @
           [\<lparr>run_id = Suc (runs_seq s), job_name = key j, run_mode = mode c,
             status = Terminal Failed, error_message = Some m, transitions = 1\<rparr>]"
    unfolding runJob_runs(1) [OF assms(1,2,3)] by (simp add: t)
  have r: "runJob j c s = endRun (st l') (Suc (runs_seq s)) Failed (Some m)"
    using t startRun_simps(1) [of s "key j" "mode c"]
    by (cases "startRun s (key j) (mode c)") (simp add: runJob_def assms(3))
  show "migration_errors (runJob j c s) = migration_errors (st l')"
    and "dest (runJob j c s) = dest (st l')"
    unfolding r by simp_all
qed

text \<open>
  The company job on the demo store, whose rows hold no NUL: the first row carries both
  legacy keys, its upsert throws on the second mapping and the row is logged at stage
  \<^verbatim>\<open>load\<close>; the second row refers to a user that is not mapped and is logged at
  stage \<^verbatim>\<open>validate\<close>; the third row is inserted.
\<close>

lemma demo_run_logged:
  "migration_errors (runJob (company log_exec) demo_ctx demo_world) =
     [\<lparr>err_run_id = 1, err_job_name = ''company'', err_legacy_id = ''2'', err_stage = Load,
       err_message = duplicate_new_id, payload = row_both_keys\<rparr>,
      \<lparr>err_run_id = 1, err_job_name = ''company'', err_legacy_id = ''3'', err_stage = Validate,
       err_message = skipped_message, payload = row_no_user\<rparr>]"
  "lidos (snd (runJob_rows (company log_exec) demo_ctx 1
     (snd (startRun demo_world ''company'' Full)) [row_both_keys, row_no_user, row_plain])) = 3"
  "inseridos (snd (runJob_rows (company log_exec) demo_ctx 1
     (snd (startRun demo_world ''company'' Full)) [row_both_keys, row_no_user, row_plain])) = 1"
  by code_simp+

text \<open>
  Claim C4, on a \<^verbatim>\<open>tb_empresa\<close> of two rows whose first row has the user key
  \<^verbatim>\<open>"10\u0000"\<close>. The claim says that the row whose upsert throws gets one entry of
  stage \<^verbatim>\<open>load\<close>, that the next row is processed and that the run ends
  \<^verbatim>\<open>success\<close>. In the code the upsert throws at \<^verbatim>\<open>mapGet("user", row.user_id)\<close>;
  the \<^verbatim>\<open>catch\<close> of the row passes the raw row as \<^verbatim>\<open>jsonb\<close> payload, the insert
  is refused, and its exception leaves the loop: \<^verbatim>\<open>migration_errors\<close> stays empty,
  the second row, whose upsert would have inserted it, is never processed, and the run
  is closed as \<^verbatim>\<open>failed\<close>.
\<close>

theorem upsert_throw_aborts_job:
  "source nul_user_ctx (extractSql (company log_exec) (mode nul_user_ctx)) =
     Ok [row_nul_user, row_plain] \<and>
   fst (upsert (company log_exec) row_nul_user nul_user_ctx
          (snd (startRun demo_world ''company'' Full))) = Throw invalid_byte \<and>
   fst (runJob_row (company log_exec) nul_user_ctx 1
          \<lparr>st = snd (startRun demo_world ''company'' Full), lidos = 0, inseridos = 0\<rparr>
          row_nul_user) = Throw bad_escape \<and>
   fst (upsert (company log_exec) row_plain nul_user_ctx
          (snd (startRun demo_world ''company'' Full))) = Ok True \<and>
   migration_errors (runJob (company log_exec) nul_user_ctx demo_world) = [] \<and>
   dest (runJob (company log_exec) nul_user_ctx demo_world) = [] \<and>
   migration_runs (runJob (company log_exec) nul_user_ctx demo_world) =
     [\<lparr>run_id = 1, job_name = ''company'', run_mode = Full, status = Terminal Failed,
       error_message = Some bad_escape, transitions = 1\<rparr>]"
  by code_simp

text \<open>
  Claim C5, on a \<^verbatim>\<open>tb_empresa\<close> of two rows whose first row refers to a user that is
  not mapped and has the name \<^verbatim>\<open>"ACME\u0000"\<close>. The claim says that the row whose
  upsert returns \<^verbatim>\<open>false\<close> gets one entry of stage \<^verbatim>\<open>validate\<close> and that the
  loop continues with the next row. In the code the upsert returns \<^verbatim>\<open>false\<close> and
  writes nothing; the insert at stage \<^verbatim>\<open>validate\<close> passes the raw row as
  \<^verbatim>\<open>jsonb\<close> payload and is refused, the \<^verbatim>\<open>catch\<close> of the row tries the insert at
  stage \<^verbatim>\<open>load\<close> with the same payload, and its exception leaves the loop:
  \<^verbatim>\<open>migration_errors\<close> stays empty, the second row is never processed, and the run
  is closed as \<^verbatim>\<open>failed\<close>.
\<close>

theorem upsert_false_aborts_job:
  "source nul_name_ctx (extractSql (company log_exec) (mode nul_name_ctx)) =
     Ok [row_nul_name, row_plain] \<and>
   fst (upsert (company log_exec) row_nul_name nul_name_ctx
          (snd (startRun demo_world ''company'' Full))) = Ok False \<and>
   fst (runJob_row (company log_exec) nul_name_ctx 1
          \<lparr>st = snd (startRun demo_world ''company'' Full), lidos = 0, inseridos = 0\<rparr>
          row_nul_name) = Throw bad_escape \<and>
   fst (upsert (company log_exec) row_plain nul_name_ctx
          (snd (startRun demo_world ''company'' Full))) = Ok True \<and>
   migration_errors (runJob (company log_exec) nul_name_ctx demo_world) = [] \<and>
   dest (runJob (company log_exec) nul_name_ctx demo_world) = [] \<and>
   migration_map (runJob (company log_exec) nul_name_ctx demo_world) = migration_map demo_world \<and>
   migration_runs (runJob (company log_exec) nul_name_ctx demo_world) =
     [\<lparr>run_id = 1, job_name = ''company'', run_mode = Full, status = Terminal Failed,
       error_message = Some bad_escape, transitions = 1\<rparr>]"
  by code_simp

end
